theory Spec2Isabelle
  imports Complex_Main "HOL-Library.AList" "HOL-Library.Char_ord" "HOL-Library.List_Lexorder"
begin

text \<open>
  The quota aggregation and the trend-chart selection of the proxy's web
  dashboard: \<open>computeQuotaRows\<close> and \<open>getUnfilteredQuotaData\<close> of the data store,
  and \<open>fetchHistory\<close>, \<open>processHistory\<close>, \<open>autoSelectNew\<close>, \<open>autoSelectTopN\<close>, the
  selection toggles and \<open>updateStats\<close> of the dashboard component, as functions on
  explicit state.
\<close>

section \<open>JavaScript primitives used by the dashboard code\<close>

text \<open>
  A number of the program is a double, held as the rational it denotes.
  \<open>to_double\<close> is the rounding of IEEE 754 binary64 arithmetic: to the nearest
  double, a tie to the even significand, with 53 significant bits above the
  smallest quantum \<open>2^-1074\<close>.  \<open>binade x\<close> is the exponent \<open>e\<close> with
  \<open>2^e \<le> x < 2^(e+1)\<close>.  The product \<open>a * b\<close> of the program is
  \<open>to_double (a * b)\<close>, its quotient \<open>a / b\<close> is \<open>to_double (a / b)\<close>, and a decimal of
  the feed reads as \<open>to_double\<close> of it.  A
  result at or beyond \<open>2^1024\<close>, which is \<open>Infinity\<close> in the program, is outside the
  model.
\<close>

definition pow2 :: "int \<Rightarrow> rat" where
  "pow2 k = (if 0 \<le> k then 2 ^ nat k else 1 / 2 ^ nat (- k))"

function binade :: "rat \<Rightarrow> int" where
  "binade x =
     (if x \<le> 0 then 0
      else if 2 \<le> x then binade (x / 2) + 1
      else if x < 1 then binade (2 * x) - 1
      else 0)"
  by pat_completeness auto
termination
proof (relation "measure (\<lambda>x. if 1 \<le> x then nat \<lfloor>x\<rfloor> else nat \<lfloor>1 / x\<rfloor> + 1)")
  show "wf (measure (\<lambda>x::rat. if 1 \<le> x then nat \<lfloor>x\<rfloor> else nat \<lfloor>1 / x\<rfloor> + 1))" by simp
next
  fix x :: rat
  assume "\<not> x \<le> 0" "2 \<le> x"
  then have "x / 2 \<le> x - 1" by simp
  then have "\<lfloor>x / 2\<rfloor> \<le> \<lfloor>x - 1\<rfloor>" by (rule floor_mono)
  then have "\<lfloor>x / 2\<rfloor> < \<lfloor>x\<rfloor>" by simp
  moreover have "2 \<le> \<lfloor>x\<rfloor>" using \<open>2 \<le> x\<close> by (simp add: le_floor_iff)
  ultimately show "(x / 2, x) \<in> measure (\<lambda>x. if 1 \<le> x then nat \<lfloor>x\<rfloor> else nat \<lfloor>1 / x\<rfloor> + 1)"
    using \<open>2 \<le> x\<close> by auto
next
  fix x :: rat
  assume pos: "\<not> x \<le> 0" and "\<not> 2 \<le> x" and lt: "x < 1"
  have one: "1 \<le> \<lfloor>1 / x\<rfloor>" using pos lt by (simp add: le_floor_iff pos_le_divide_eq)
  show "(2 * x, x) \<in> measure (\<lambda>x. if 1 \<le> x then nat \<lfloor>x\<rfloor> else nat \<lfloor>1 / x\<rfloor> + 1)"
  proof (cases "1 \<le> 2 * x")
    case True
    have "2 * x < 2" using lt by simp
    then have "\<lfloor>2 * x\<rfloor> < 2" by (simp add: floor_less_iff)
    then have "nat \<lfloor>2 * x\<rfloor> < Suc (nat \<lfloor>1 / x\<rfloor>)" using one by linarith
    with True lt show ?thesis by simp
  next
    case False
    then have "2 \<le> 1 / x" using pos by (simp add: pos_le_divide_eq mult.commute)
    then have "1 / x / 2 \<le> 1 / x - 1" by simp
    then have "\<lfloor>1 / x / 2\<rfloor> \<le> \<lfloor>1 / x - 1\<rfloor>" by (rule floor_mono)
    then have "\<lfloor>1 / (2 * x)\<rfloor> < \<lfloor>1 / x\<rfloor>" by (simp add: field_simps)
    then have "nat \<lfloor>1 / (2 * x)\<rfloor> < nat \<lfloor>1 / x\<rfloor>" using one by linarith
    with False lt show ?thesis by simp
  qed
qed

declare binade.simps [simp del]

definition round_half_even :: "rat \<Rightarrow> int" where
  "round_half_even m =
     (let f = \<lfloor>m\<rfloor>; d = m - of_int f
      in if d < 1 / 2 then f else if 1 / 2 < d then f + 1 else if even f then f else f + 1)"

definition to_double :: "rat \<Rightarrow> rat" where
  "to_double x =
     (if x = 0 then 0
      else (let q = pow2 (max (binade \<bar>x\<bar> - 52) (- 1074))
            in of_int (round_half_even (x / q)) * q))"

text \<open>\<open>Math.round\<close> rounds a double to the nearest integer, a tie going up.\<close>

definition js_round :: "rat \<Rightarrow> int" where
  "js_round x = \<lfloor>x + 1 / 2\<rfloor>"

text \<open>\<open>String.prototype.toLowerCase\<close> on ASCII text.\<close>

definition lower_char :: "char \<Rightarrow> char" where
  "lower_char c =
     (case map_of (zip ''ABCDEFGHIJKLMNOPQRSTUVWXYZ'' ''abcdefghijklmnopqrstuvwxyz'') c of
        Some l \<Rightarrow> l
      | None \<Rightarrow> c)"

definition toLowerCase :: "string \<Rightarrow> string" where
  "toLowerCase s = map lower_char s"

fun starts_with :: "string \<Rightarrow> string \<Rightarrow> bool" where
  "starts_with s [] = True"
| "starts_with [] (y # ys) = False"
| "starts_with (x # xs) (y # ys) = (x = y \<and> starts_with xs ys)"

text \<open>\<open>s.includes(t)\<close>: \<open>t\<close> occurs in \<open>s\<close> as a contiguous substring.\<close>

fun str_includes :: "string \<Rightarrow> string \<Rightarrow> bool" where
  "str_includes [] t = (t = [])"
| "str_includes (x # xs) t = (starts_with (x # xs) t \<or> str_includes xs t)"

text \<open>
  \<open>Array.prototype.sort\<close> with a comparator.  The sort is stable, and for a
  consistent comparator the sorted array is determined by that: it is the one a
  stable insertion sort builds.
\<close>

fun insert_by :: "('a \<Rightarrow> 'a \<Rightarrow> int) \<Rightarrow> 'a \<Rightarrow> 'a list \<Rightarrow> 'a list" where
  "insert_by cmp x [] = [x]"
| "insert_by cmp x (y # ys) =
     (if cmp x y \<le> 0 then x # y # ys else y # insert_by cmp x ys)"

definition js_sort :: "('a \<Rightarrow> 'a \<Rightarrow> int) \<Rightarrow> 'a list \<Rightarrow> 'a list" where
  "js_sort cmp xs = foldr (insert_by cmp) xs []"


section \<open>The data store (data-store.js)\<close>

text \<open>
  A limit as the snapshot feed carries it.  \<open>remainingFraction\<close> is a number or
  \<open>null\<close>; \<open>resetTime\<close> is \<open>null\<close> or a timestamp, held here as the epoch
  milliseconds that \<open>new Date(resetTime)\<close> reads from it.
\<close>

record Limit =
  remainingFraction :: "rat option"
  resetTime :: "int option"

text \<open>
  An account.  \<open>enabled\<close> is \<open>None\<close> when the field is absent.  \<open>limits\<close> lists the
  entries of the limits object, a \<open>null\<close> entry as \<open>None\<close>; an absent limits
  object is the empty list.
\<close>

record Account =
  email :: string
  enabled :: "bool option"
  status :: string
  limits :: "(string \<times> Limit option) list"

record ModelConfig =
  cfg_hidden :: "bool option"
  cfg_pinned :: "bool option"

record Filters =
  f_account :: string
  f_family :: string
  f_search :: string

text \<open>The two flags of the settings store; \<open>None\<close> when the store or the flag is absent.\<close>

record Settings =
  showExhausted :: "bool option"
  showHiddenModels :: "bool option"

record DataStore =
  accounts :: "Account list"
  models :: "string list"
  modelConfig :: "string \<rightharpoonup> ModelConfig"
  filters :: Filters

record QuotaInfo =
  qi_email :: string
  fullEmail :: string
  pct :: int
  qi_resetTime :: "int option"

record QuotaRow =
  modelId :: string
  displayName :: string
  family :: string
  minQuota :: int
  avgQuota :: int
  minResetTime :: "int option"
  resetIn :: string
  quotaInfo :: "QuotaInfo list"
  pinned :: bool
  hidden :: bool

definition getModelFamily :: "string \<Rightarrow> string" where
  "getModelFamily mid =
     (let lower = toLowerCase mid
      in if str_includes lower ''claude'' then ''claude''
         else if str_includes lower ''gemini'' then ''gemini''
         else ''other'')"

text \<open>\<open>acc.limits?.[modelId]\<close>, with a falsy result (\<open>undefined\<close>, \<open>null\<close>) as \<open>None\<close>.\<close>

definition limit_of :: "Account \<Rightarrow> string \<Rightarrow> Limit option" where
  "limit_of acc mid = (case map_of (limits acc) mid of Some (Some l) \<Rightarrow> Some l | _ \<Rightarrow> None)"

text \<open>\<open>remainingFraction !== null ? Math.round(remainingFraction * 100) : 0\<close>\<close>

definition limit_pct :: "Limit \<Rightarrow> int" where
  "limit_pct l =
     (case remainingFraction l of Some r \<Rightarrow> js_round (to_double (r * 100)) | None \<Rightarrow> 0)"

text \<open>
  The smart-visibility rule shared by both aggregations: an explicit
  \<open>config.hidden\<close> wins, otherwise the families \<open>other\<close> and \<open>unknown\<close> are hidden.
\<close>

definition config_of :: "DataStore \<Rightarrow> string \<Rightarrow> ModelConfig" where
  "config_of st mid =
     (case modelConfig st mid of Some c \<Rightarrow> c
      | None \<Rightarrow> \<lparr>cfg_hidden = None, cfg_pinned = None\<rparr>)"

definition isHidden :: "DataStore \<Rightarrow> string \<Rightarrow> bool" where
  "isHidden st mid =
     (case cfg_hidden (config_of st mid) of Some h \<Rightarrow> h
      | None \<Rightarrow> getModelFamily mid = ''other'' \<or> getModelFamily mid = ''unknown'')"

text \<open>The variables the inner \<open>accounts.forEach\<close> of \<open>computeQuotaRows\<close> updates.\<close>

record Collected =
  c_quotaInfo :: "QuotaInfo list"
  c_minQuota :: int
  c_totalQuotaSum :: int
  c_validAccountCount :: nat
  c_minResetTime :: "int option"

definition collect_init :: Collected where
  "collect_init =
     \<lparr>c_quotaInfo = [], c_minQuota = 100, c_totalQuotaSum = 0,
      c_validAccountCount = 0, c_minResetTime = None\<rparr>"

definition earlier_reset :: "int option \<Rightarrow> int option \<Rightarrow> int option" where
  "earlier_reset rt cur =
     (case rt of None \<Rightarrow> cur
      | Some t \<Rightarrow> (case cur of None \<Rightarrow> Some t
                   | Some m \<Rightarrow> if t < m then Some t else Some m))"

definition collect_account :: "Filters \<Rightarrow> string \<Rightarrow> Account \<Rightarrow> Collected \<Rightarrow> Collected" where
  "collect_account flt mid acc c =
     (if f_account flt \<noteq> ''all'' \<and> email acc \<noteq> f_account flt then c
      else case limit_of acc mid of
        None \<Rightarrow> c
      | Some l \<Rightarrow>
          (let p = limit_pct l
           in \<lparr>c_quotaInfo = c_quotaInfo c @
                  [\<lparr>qi_email = takeWhile (\<lambda>ch. ch \<noteq> CHR ''@'') (email acc),
                    fullEmail = email acc, pct = p, qi_resetTime = resetTime l\<rparr>],
                c_minQuota = min (c_minQuota c) p,
                c_totalQuotaSum = c_totalQuotaSum c + p,
                c_validAccountCount = Suc (c_validAccountCount c),
                c_minResetTime = earlier_reset (resetTime l) (c_minResetTime c)\<rparr>))"

definition collect :: "Filters \<Rightarrow> string \<Rightarrow> Account list \<Rightarrow> Collected" where
  "collect flt mid accs = fold (collect_account flt mid) accs collect_init"

text \<open>
  The body of \<open>models.forEach\<close> in \<open>computeQuotaRows\<close>: \<open>None\<close> for each early
  \<open>return\<close>, otherwise the row pushed.  \<open>formatTimeUntil\<close> belongs to the utilities
  and is a parameter.  Sum and count are integers, which doubles hold exactly; their
  quotient is a double again.
\<close>

definition quota_row :: "(int \<Rightarrow> string) \<Rightarrow> Settings \<Rightarrow> DataStore \<Rightarrow> string \<Rightarrow> QuotaRow option" where
  "quota_row formatTimeUntil sets st mid =
     (let config = config_of st mid;
          fam = getModelFamily mid
      in if isHidden st mid then None
         else if f_family (filters st) \<noteq> ''all'' \<and> f_family (filters st) \<noteq> fam then None
         else if f_search (filters st) \<noteq> [] \<and>
                 \<not> str_includes (toLowerCase mid) (toLowerCase (f_search (filters st))) then None
         else
           (let c = collect (filters st) mid (accounts st);
                avg = (if c_validAccountCount c > 0
                       then js_round (to_double (of_int (c_totalQuotaSum c) / of_nat (c_validAccountCount c)))
                       else 0)
            in if c_quotaInfo c = [] then None
               else if \<not> (case showExhausted sets of Some b \<Rightarrow> b | None \<Rightarrow> True) \<and> c_minQuota c = 0
               then None
               else Some
                 \<lparr>modelId = mid, displayName = mid, family = fam,
                  minQuota = c_minQuota c, avgQuota = avg,
                  minResetTime = c_minResetTime c,
                  resetIn = (case c_minResetTime c of Some t \<Rightarrow> formatTimeUntil t | None \<Rightarrow> ''-''),
                  quotaInfo = c_quotaInfo c,
                  pinned = (cfg_pinned config = Some True),
                  hidden = False\<rparr>))"

text \<open>The comparator of the final sort: pinned first, then \<open>avgQuota\<close> descending.\<close>

definition row_cmp :: "QuotaRow \<Rightarrow> QuotaRow \<Rightarrow> int" where
  "row_cmp a b =
     (if pinned a \<noteq> pinned b then (if pinned a then - 1 else 1)
      else avgQuota b - avgQuota a)"

definition computeQuotaRows :: "(int \<Rightarrow> string) \<Rightarrow> Settings \<Rightarrow> DataStore \<Rightarrow> QuotaRow list" where
  "computeQuotaRows formatTimeUntil sets st =
     js_sort row_cmp (List.map_filter (quota_row formatTimeUntil sets st) (models st))"

record UnfilteredRow =
  u_modelId :: string
  u_family :: string
  u_quotaInfo :: "int list"

text \<open>The inner loop of \<open>getUnfilteredQuotaData\<close>: one \<open>{pct}\<close> per account with a limit.\<close>

definition unfiltered_info :: "string \<Rightarrow> Account list \<Rightarrow> int list" where
  "unfiltered_info mid accs =
     List.map_filter (\<lambda>acc. map_option limit_pct (limit_of acc mid)) accs"

definition unfiltered_row :: "Settings \<Rightarrow> DataStore \<Rightarrow> string \<Rightarrow> UnfilteredRow option" where
  "unfiltered_row sets st mid =
     (if isHidden st mid \<and> \<not> (case showHiddenModels sets of Some b \<Rightarrow> b | None \<Rightarrow> False)
      then None
      else (let qi = unfiltered_info mid (accounts st)
            in if qi = [] then None
               else Some \<lparr>u_modelId = mid, u_family = getModelFamily mid, u_quotaInfo = qi\<rparr>))"

definition getUnfilteredQuotaData :: "Settings \<Rightarrow> DataStore \<Rightarrow> UnfilteredRow list" where
  "getUnfilteredQuotaData sets st = List.map_filter (unfiltered_row sets st) (models st)"


section \<open>The dashboard component (dashboard.js)\<close>

subsection \<open>State\<close>

text \<open>
  A value under a family key of a history bucket: the hierarchical format holds an
  object of per-model counts (with its \<open>_subtotal\<close> among them), the legacy flat
  format a number.
\<close>

datatype hval = Flat int | Fam "(string \<times> int) list"

text \<open>
  One history bucket.  \<open>uscore_total\<close> is the field \<open>_total\<close> and \<open>plain_total\<close> the
  field \<open>total\<close>, each \<open>None\<close> when absent or \<open>null\<close>; \<open>entries\<close> are the other keys
  in the order \<open>Object.entries\<close> yields them.  The history pairs each bucket with
  the epoch milliseconds of its ISO key, in iteration order.
\<close>

record HistoryBucket =
  uscore_total :: "int option"
  plain_total :: "int option"
  entries :: "(string \<times> hval) list"

type_synonym History = "(int \<times> HistoryBucket) list"

record Stats =
  stat_total :: nat
  active :: nat
  limited :: nat
  overallHealth :: int
  hasTrendData :: bool

record UsageStats =
  usage_total :: int
  today :: int
  thisHour :: int

record Prefs =
  p_displayMode :: string
  p_selectedFamilies :: "string list"
  p_selectedModels :: "(string \<times> string list) list"

text \<open>
  The component's fields, with the two effects it has on the outside: \<open>storage\<close> is
  the item \<open>dashboard_chart_prefs\<close> of the local storage and \<open>console\<close> the messages
  given to \<open>console.error\<close>.  Objects keyed by family are association lists in key
  order.  A write to the storage is taken to succeed.  The charts and the password
  that a request hands back are not part of the state.
\<close>

record Dashboard =
  stats :: Stats
  usageStats :: UsageStats
  historyData :: History
  modelTree :: "(string \<times> string list) list"
  families :: "string list"
  displayMode :: string
  selectedFamilies :: "string list"
  selectedModels :: "(string \<times> string list) list"
  storage :: "Prefs option"
  console :: "string list"

text \<open>The component as the source's object literal creates it.\<close>

definition initial_dashboard :: Dashboard where
  "initial_dashboard =
     \<lparr>stats = \<lparr>stat_total = 0, active = 0, limited = 0, overallHealth = 0, hasTrendData = False\<rparr>,
      usageStats = \<lparr>usage_total = 0, today = 0, thisHour = 0\<rparr>,
      historyData = [], modelTree = [], families = [], displayMode = ''model'',
      selectedFamilies = [], selectedModels = [], storage = None, console = []\<rparr>"

definition savePreferences :: "Dashboard \<Rightarrow> Dashboard" where
  "savePreferences d =
     d\<lparr>storage := Some \<lparr>p_displayMode = displayMode d,
                          p_selectedFamilies = selectedFamilies d,
                          p_selectedModels = selectedModels d\<rparr>\<rparr>"

text \<open>\<open>obj[key] || []\<close> for an object of arrays.\<close>

definition array_at :: "(string \<times> 'a list) list \<Rightarrow> string \<Rightarrow> 'a list" where
  "array_at obj k = (case map_of obj k of Some xs \<Rightarrow> xs | None \<Rightarrow> [])"

subsection \<open>Selection\<close>

text \<open>\<open>if (!xs.includes(x)) xs.push(x)\<close>\<close>

definition push_new :: "'a \<Rightarrow> 'a list \<Rightarrow> 'a list" where
  "push_new x xs = (if x \<in> set xs then xs else xs @ [x])"

definition extend_family :: "(string \<times> string list) list \<Rightarrow> string \<Rightarrow> Dashboard \<Rightarrow> Dashboard" where
  "extend_family tree fam d =
     d\<lparr>selectedFamilies := push_new fam (selectedFamilies d),
       selectedModels :=
         AList.update fam (fold push_new (array_at tree fam) (array_at (selectedModels d) fam))
           (selectedModels d)\<rparr>"

definition select_everything :: "Dashboard \<Rightarrow> Dashboard" where
  "select_everything d =
     fold (\<lambda>fam d'. d'\<lparr>selectedModels :=
                          AList.update fam (array_at (modelTree d) fam) (selectedModels d')\<rparr>)
       (families d) (d\<lparr>selectedFamilies := families d\<rparr>)"

definition autoSelectNew :: "Dashboard \<Rightarrow> Dashboard" where
  "autoSelectNew d =
     (if selectedFamilies d = [] \<and> selectedModels d = []
      then savePreferences (select_everything d)
      else fold (extend_family (modelTree d)) (families d) d)"

definition toggleFamily :: "string \<Rightarrow> Dashboard \<Rightarrow> Dashboard" where
  "toggleFamily fam d =
     savePreferences
       (d\<lparr>selectedFamilies :=
            (if fam \<in> set (selectedFamilies d) then remove1 fam (selectedFamilies d)
             else selectedFamilies d @ [fam])\<rparr>)"

definition toggleModel :: "string \<Rightarrow> string \<Rightarrow> Dashboard \<Rightarrow> Dashboard" where
  "toggleModel fam model d =
     (let cur = array_at (selectedModels d) fam
      in savePreferences
           (d\<lparr>selectedModels :=
                AList.update fam
                  (if model \<in> set cur then remove1 model cur else cur @ [model])
                  (selectedModels d)\<rparr>))"

definition selectAll :: "Dashboard \<Rightarrow> Dashboard" where
  "selectAll d = savePreferences (select_everything d)"

definition deselectAll :: "Dashboard \<Rightarrow> Dashboard" where
  "deselectAll d = savePreferences (d\<lparr>selectedFamilies := [], selectedModels := []\<rparr>)"

subsection \<open>History processing\<close>

text \<open>\<open>hourData._total || hourData.total || 0\<close>: \<open>||\<close> passes over every falsy value.\<close>

definition js_or :: "int option \<Rightarrow> int \<Rightarrow> int" where
  "js_or v rest = (case v of Some n \<Rightarrow> if n \<noteq> 0 then n else rest | None \<Rightarrow> rest)"

definition hourTotal :: "HistoryBucket \<Rightarrow> int" where
  "hourTotal b = js_or (uscore_total b) (js_or (plain_total b) 0)"

definition tree_entry :: "string \<times> hval \<Rightarrow> (string \<times> string list) list \<Rightarrow> (string \<times> string list) list" where
  "tree_entry kv tree =
     (case kv of (key, v) \<Rightarrow>
        if key = ''_total'' \<or> key = ''total'' then tree
        else (case v of
                Fam ms \<Rightarrow>
                  AList.update key
                    (fold (\<lambda>(modelName, n) s. if modelName \<noteq> ''_subtotal'' then push_new modelName s else s)
                       ms (array_at tree key))
                    tree
              | Flat n \<Rightarrow> tree))"

record Running =
  r_tree :: "(string \<times> string list) list"
  r_total :: int
  r_today :: int
  r_thisHour :: int

definition history_entry :: "int \<Rightarrow> int \<Rightarrow> int \<times> HistoryBucket \<Rightarrow> Running \<Rightarrow> Running" where
  "history_entry todayStart currentHour e r =
     (case e of (timestamp, hourData) \<Rightarrow>
        \<lparr>r_tree = fold tree_entry (entries hourData) (r_tree r),
         r_total = r_total r + hourTotal hourData,
         r_today = (if timestamp \<ge> todayStart then r_today r + hourTotal hourData else r_today r),
         r_thisHour = (if timestamp = currentHour then hourTotal hourData else r_thisHour r)\<rparr>)"

definition run_history :: "int \<Rightarrow> int \<Rightarrow> History \<Rightarrow> Running" where
  "run_history todayStart currentHour history =
     fold (history_entry todayStart currentHour) history
       \<lparr>r_tree = [], r_total = 0, r_today = 0, r_thisHour = 0\<rparr>"

text \<open>
  \<open>processHistory\<close>, given the start of the local day and of the current hour.
  The sets of the tree become sorted arrays, the families are the sorted keys, and
  \<open>autoSelectNew\<close> runs on the result.
\<close>

definition processHistory :: "int \<Rightarrow> int \<Rightarrow> History \<Rightarrow> Dashboard \<Rightarrow> Dashboard" where
  "processHistory todayStart currentHour history d =
     (let r = run_history todayStart currentHour history;
          mt = map (\<lambda>(fam, ms). (fam, sort ms)) (r_tree r)
      in autoSelectNew
           (d\<lparr>usageStats := \<lparr>usage_total = r_total r, today = r_today r, thisHour = r_thisHour r\<rparr>,
              modelTree := mt,
              families := sort (map fst mt)\<rparr>))"

text \<open>
  \<open>fetchHistory\<close> by what the request does: it throws, or it answers with the flag
  \<open>ok\<close> and a body that parses as a history or does not.  \<open>fetch_failed\<close> is the
  \<open>catch\<close> block, which a throwing request and a body that does not parse reach.
\<close>

datatype body = BadJson | Json History

datatype fetch_outcome = Rejected | Responded bool body

definition fetch_failed :: "Dashboard \<Rightarrow> Dashboard" where
  "fetch_failed d =
     d\<lparr>console := console d @ [''Failed to fetch usage history:''],
       stats := (stats d)\<lparr>hasTrendData := True\<rparr>\<rparr>"

definition fetchHistory :: "int \<Rightarrow> int \<Rightarrow> fetch_outcome \<Rightarrow> Dashboard \<Rightarrow> Dashboard" where
  "fetchHistory todayStart currentHour outcome d =
     (case outcome of
        Rejected \<Rightarrow> fetch_failed d
      | Responded ok b \<Rightarrow>
          if ok then
            (case b of
               BadJson \<Rightarrow> fetch_failed d
             | Json history \<Rightarrow>
                 (let d' = processHistory todayStart currentHour history (d\<lparr>historyData := history\<rparr>)
                  in d'\<lparr>stats := (stats d')\<lparr>hasTrendData := True\<rparr>\<rparr>))
          else d)"

subsection \<open>Top-N selection\<close>

text \<open>The key \<open>`${family}:${model}`\<close> of the usage object.\<close>

definition usage_key :: "string \<Rightarrow> string \<Rightarrow> string" where
  "usage_key fam model = fam @ '':'' @ model"

definition add_model :: "string \<Rightarrow> string \<times> int \<Rightarrow> (string \<times> int) list \<Rightarrow> (string \<times> int) list" where
  "add_model fam mc usage =
     (case mc of (model, n) \<Rightarrow>
        if model \<noteq> ''_subtotal''
        then (let key = usage_key fam model
              in AList.update key (js_or (map_of usage key) 0 + n) usage)
        else usage)"

definition add_family :: "string \<times> hval \<Rightarrow> (string \<times> int) list \<Rightarrow> (string \<times> int) list" where
  "add_family fv usage =
     (case fv of (fam, familyData) \<Rightarrow>
        (case familyData of
           Fam ms \<Rightarrow> if fam \<noteq> ''_total'' then fold (add_model fam) ms usage else usage
         | Flat n \<Rightarrow> usage))"

definition add_bucket :: "int \<Rightarrow> int \<times> HistoryBucket \<Rightarrow> (string \<times> int) list \<Rightarrow> (string \<times> int) list" where
  "add_bucket dayAgo e usage =
     (case e of (timestamp, hourData) \<Rightarrow>
        if timestamp < dayAgo then usage else fold add_family (entries hourData) usage)"

definition usage_of :: "int \<Rightarrow> History \<Rightarrow> (string \<times> int) list" where
  "usage_of dayAgo history = fold (add_bucket dayAgo) history []"

definition usage_cmp :: "string \<times> int \<Rightarrow> string \<times> int \<Rightarrow> int" where
  "usage_cmp a b = snd b - snd a"

text \<open>\<open>key.split(':')\<close>\<close>

fun split_colon :: "string \<Rightarrow> string list" where
  "split_colon [] = [[]]"
| "split_colon (c # cs) =
     (if c = CHR '':'' then [] # split_colon cs
      else (case split_colon cs of p # ps \<Rightarrow> (c # p) # ps | [] \<Rightarrow> [[c]]))"

text \<open>
  One step of the final \<open>forEach\<close>: \<open>[family, model] = key.split(':')\<close> takes the
  first two parts.  Every key of the usage object holds a colon, so there are two.
\<close>

definition select_key :: "string \<Rightarrow> Dashboard \<Rightarrow> Dashboard" where
  "select_key key d =
     (case split_colon key of
        fam # model # rest \<Rightarrow>
          d\<lparr>selectedFamilies := push_new fam (selectedFamilies d),
            selectedModels :=
              AList.update fam (array_at (selectedModels d) fam @ [model]) (selectedModels d)\<rparr>
      | _ \<Rightarrow> d)"

definition top_keys :: "nat \<Rightarrow> int \<Rightarrow> History \<Rightarrow> string list" where
  "top_keys n now history =
     map fst (take n (js_sort usage_cmp (usage_of (now - 24 * 60 * 60 * 1000) history)))"

definition autoSelectTopN :: "nat \<Rightarrow> int \<Rightarrow> Dashboard \<Rightarrow> Dashboard" where
  "autoSelectTopN n now d =
     savePreferences
       (fold select_key (top_keys n now (historyData d))
          (d\<lparr>selectedFamilies := [], selectedModels := []\<rparr>))"

subsection \<open>Summary counters\<close>

text \<open>\<open>/sonnet|opus|pro|flash/i.test(id)\<close>\<close>

definition isCore :: "string \<Rightarrow> bool" where
  "isCore mid =
     (let lower = toLowerCase mid
      in str_includes lower ''sonnet'' \<or> str_includes lower ''opus'' \<or>
         str_includes lower ''pro'' \<or> str_includes lower ''flash'')"

text \<open>The double that the literal \<open>0.05\<close> denotes.\<close>

definition threshold :: rat where
  "threshold = 3602879701896397 / 2 ^ 56"

text \<open>\<open>l && l.remainingFraction > 0.05\<close>\<close>

definition above :: "Limit option \<Rightarrow> bool" where
  "above l =
     (case l of
        Some lm \<Rightarrow> (case remainingFraction lm of Some r \<Rightarrow> r > threshold | None \<Rightarrow> False)
      | None \<Rightarrow> False)"

definition hasActiveCore :: "Account \<Rightarrow> bool" where
  "hasActiveCore acc =
     (if list_ex (\<lambda>(mid, l). above l \<and> isCore mid) (limits acc) then True
      else if list_ex (\<lambda>(mid, l). isCore mid) (limits acc) then False
      else list_ex (\<lambda>(mid, l). above l) (limits acc))"

definition count_account :: "Account \<Rightarrow> nat \<times> nat \<Rightarrow> nat \<times> nat" where
  "count_account acc al =
     (case al of (a, l) \<Rightarrow>
        if status acc = ''ok''
        then (if hasActiveCore acc then (Suc a, l) else (a, Suc l))
        else (a, Suc l))"

definition enabledAccounts :: "Account list \<Rightarrow> Account list" where
  "enabledAccounts accs = filter (\<lambda>acc. enabled acc \<noteq> Some False) accs"

definition updateStats :: "Account list \<Rightarrow> Dashboard \<Rightarrow> Dashboard" where
  "updateStats accs d =
     (case fold count_account (enabledAccounts accs) (0, 0) of (a, l) \<Rightarrow>
        d\<lparr>stats := (stats d)\<lparr>stat_total := length (enabledAccounts accs),
                               active := a, limited := l\<rparr>\<rparr>)"

section \<open>Notions that the properties are stated with\<close>

text \<open>
  The limits that contribute to the row of a model: those of the accounts that
  pass the account filter and have a limit for the model, in account order.
\<close>

definition passes_filter :: "Filters \<Rightarrow> Account \<Rightarrow> bool" where
  "passes_filter flt acc = (f_account flt = ''all'' \<or> email acc = f_account flt)"

definition contributing :: "Filters \<Rightarrow> string \<Rightarrow> Account list \<Rightarrow> Limit list" where
  "contributing flt mid accs =
     List.map_filter (\<lambda>acc. if passes_filter flt acc then limit_of acc mid else None) accs"

text \<open>
  The percentage a fraction stands for: \<open>round(remainingFraction * 100)\<close> in the
  program's arithmetic, and 0 for \<open>null\<close>.
\<close>

definition percentage :: "rat option \<Rightarrow> int" where
  "percentage f = (case f of None \<Rightarrow> 0 | Some r \<Rightarrow> js_round (to_double (r * 100)))"

text \<open>The rounded arithmetic mean of a list of percentages, in the program's arithmetic.\<close>

definition rounded_mean :: "int list \<Rightarrow> int" where
  "rounded_mean ps = js_round (to_double (of_int (sum_list ps) / of_nat (length ps)))"

text \<open>
  The range of the data model: every \<open>remainingFraction\<close> of the snapshot is \<open>null\<close>
  or lies in \<open>[0, 1]\<close>.
\<close>

definition limit_in_range :: "Limit \<Rightarrow> bool" where
  "limit_in_range l = (case remainingFraction l of None \<Rightarrow> True | Some r \<Rightarrow> 0 \<le> r \<and> r \<le> 1)"

definition fractions_in_range :: "Account list \<Rightarrow> bool" where
  "fractions_in_range accs =
     list_all (\<lambda>acc. list_all (\<lambda>(mid, l). case l of None \<Rightarrow> True | Some lm \<Rightarrow> limit_in_range lm)
                        (limits acc)) accs"

text \<open>
  The amount a bucket adds to the running total when \<open>_total\<close> and \<open>total\<close> are
  read with nullish coalescing, \<open>bucket._total ?? bucket.total ?? 0\<close>.
\<close>

definition nullish_total :: "HistoryBucket \<Rightarrow> int" where
  "nullish_total b =
     (case uscore_total b of
        Some n \<Rightarrow> n
      | None \<Rightarrow> (case plain_total b of Some m \<Rightarrow> m | None \<Rightarrow> 0))"

text \<open>The same reading after an explicit \<open>_total\<close> of 0 is passed over like an absent one.\<close>

definition falsy_total :: "HistoryBucket \<Rightarrow> int" where
  "falsy_total b =
     nullish_total (if uscore_total b = Some 0 then b\<lparr>uscore_total := None\<rparr> else b)"

text \<open>
  What the top-N selection is specified by.  The usage of the window: every count
  of a (family, model) pair in a bucket whose timestamp is not before the start
  of the window, in iteration order; \<open>_total\<close> is no family and \<open>_subtotal\<close> no
  model.
\<close>

definition family_usage :: "string \<times> hval \<Rightarrow> ((string \<times> string) \<times> int) list" where
  "family_usage fv =
     (case fv of
        (fam, Fam ms) \<Rightarrow>
          if fam = ''_total'' then []
          else map (\<lambda>(model, n). ((fam, model), n)) (filter (\<lambda>(model, n). model \<noteq> ''_subtotal'') ms)
      | (fam, Flat n) \<Rightarrow> [])"

definition window_usage :: "int \<Rightarrow> History \<Rightarrow> ((string \<times> string) \<times> int) list" where
  "window_usage start history =
     concat (map (\<lambda>(timestamp, b). if start \<le> timestamp then concat (map family_usage (entries b)) else [])
               history)"

text \<open>The total usage of a pair, and the pairs in the order of their first occurrence.\<close>

definition pair_total :: "('k \<times> int) list \<Rightarrow> 'k \<Rightarrow> int" where
  "pair_total us p = sum_list (map snd (filter (\<lambda>u. fst u = p) us))"

fun first_occurrences :: "'a list \<Rightarrow> 'a list" where
  "first_occurrences [] = []"
| "first_occurrences (x # xs) = x # removeAll x (first_occurrences xs)"

text \<open>
  The ranking: the pairs by total usage descending, a tie keeping the iteration
  order (\<open>sort_key\<close> is the library's stable sort), cut after the first \<open>n\<close>.
\<close>

definition top_pairs :: "nat \<Rightarrow> int \<Rightarrow> History \<Rightarrow> (string \<times> string) list" where
  "top_pairs n start history =
     take n (sort_key (\<lambda>p. - pair_total (window_usage start history) p)
               (first_occurrences (map fst (window_usage start history))))"

text \<open>Names without the separator of the usage keys.\<close>

definition plain :: "string \<times> string \<Rightarrow> bool" where
  "plain p = (CHR '':'' \<notin> set (fst p) \<and> CHR '':'' \<notin> set (snd p))"

definition colon_free :: "int \<Rightarrow> History \<Rightarrow> bool" where
  "colon_free start history = list_all (\<lambda>u. plain (fst u)) (window_usage start history)"

text \<open>
  Three auxiliary readings of the code's iterations: one step of the usage loop on a
  (pair, count) entry; the tally of a list of keyed counts into an object; one
  step of the selection loop on a pair instead of its key.
\<close>

definition add_usage :: "(string \<times> string) \<times> int \<Rightarrow> (string \<times> int) list \<Rightarrow> (string \<times> int) list" where
  "add_usage u usage =
     AList.update (usage_key (fst (fst u)) (snd (fst u)))
       (js_or (map_of usage (usage_key (fst (fst u)) (snd (fst u)))) 0 + snd u) usage"

definition tally :: "('k \<times> int) list \<Rightarrow> ('k \<times> int) list \<Rightarrow> ('k \<times> int) list" where
  "tally us al = fold (\<lambda>u al. AList.update (fst u) (js_or (map_of al (fst u)) 0 + snd u) al) us al"

definition pair_key :: "string \<times> string \<Rightarrow> string" where
  "pair_key p = usage_key (fst p) (snd p)"

definition select_pair :: "string \<times> string \<Rightarrow> Dashboard \<Rightarrow> Dashboard" where
  "select_pair p d =
     d\<lparr>selectedFamilies := push_new (fst p) (selectedFamilies d),
       selectedModels :=
         AList.update (fst p) (array_at (selectedModels d) (fst p) @ [snd p]) (selectedModels d)\<rparr>"

section \<open>Example inputs\<close>

text \<open>A limit whose fraction the feed writes as the given decimal.\<close>

definition ex_limit :: "rat option \<Rightarrow> Limit option" where
  "ex_limit r = Some \<lparr>remainingFraction = map_option to_double r, resetTime = None\<rparr>"

definition acc_a :: Account where
  "acc_a = \<lparr>email = ''a@example.com'', enabled = Some True, status = ''ok'',
            limits = [(''claude-opus'', ex_limit (Some (1 / 2))),
                      (''gemini-flash'', ex_limit (Some (1 / 5))),
                      (''claude-sonnet'', ex_limit (Some 1)),
                      (''mystery-model'', ex_limit (Some (9 / 10)))]\<rparr>"

definition acc_b :: Account where
  "acc_b = \<lparr>email = ''b@example.com'', enabled = None, status = ''ok'',
            limits = [(''claude-opus'', ex_limit None),
                      (''gemini-flash'', ex_limit (Some (3 / 5)))]\<rparr>"

definition acc_off :: Account where
  "acc_off = \<lparr>email = ''off@example.com'', enabled = Some False, status = ''ok'',
              limits = [(''claude-sonnet'', ex_limit (Some (1 / 2)))]\<rparr>"

definition ex_filters :: Filters where
  "ex_filters = \<lparr>f_account = ''all'', f_family = ''all'', f_search = ''''\<rparr>"

definition ex_store :: DataStore where
  "ex_store =
     \<lparr>accounts = [acc_a, acc_b],
      models = [''gemini-flash'', ''claude-opus'', ''claude-sonnet'', ''mystery-model''],
      modelConfig = [''claude-opus'' \<mapsto> \<lparr>cfg_hidden = None, cfg_pinned = Some True\<rparr>],
      filters = ex_filters\<rparr>"

text \<open>
  A snapshot with the fractions 0.015 and 0.2.  The double product \<open>0.015 * 100\<close>
  is 1.5, while the exact product of the double 0.015 and 100 is below 1.5.
\<close>

definition tie_store :: DataStore where
  "tie_store =
     \<lparr>accounts =
        [\<lparr>email = ''x@example.com'', enabled = Some True, status = ''ok'',
          limits = [(''claude-tie'', ex_limit (Some (3 / 200)))]\<rparr>,
         \<lparr>email = ''y@example.com'', enabled = Some True, status = ''ok'',
          limits = [(''claude-tie'', ex_limit (Some (1 / 5)))]\<rparr>],
      models = [''claude-tie''], modelConfig = Map.empty, filters = ex_filters\<rparr>"

text \<open>A snapshot whose only account is disabled.\<close>

definition off_store :: DataStore where
  "off_store =
     \<lparr>accounts = [acc_off], models = [''claude-sonnet''], modelConfig = Map.empty,
      filters = ex_filters\<rparr>"

definition ex_settings :: Settings where
  "ex_settings = \<lparr>showExhausted = None, showHiddenModels = None\<rparr>"

definition show_hidden :: Settings where
  "show_hidden = \<lparr>showExhausted = None, showHiddenModels = Some True\<rparr>"

definition ex_format :: "int \<Rightarrow> string" where
  "ex_format t = ''soon''"

definition ex_rows :: "QuotaRow list" where
  "ex_rows = computeQuotaRows ex_format ex_settings ex_store"

definition tie_rows :: "QuotaRow list" where
  "tie_rows = computeQuotaRows ex_format ex_settings tie_store"

text \<open>A bucket whose \<open>_total\<close> is an explicit 0 beside a legacy \<open>total\<close> of 7.\<close>

definition zero_bucket :: HistoryBucket where
  "zero_bucket = \<lparr>uscore_total = Some 0, plain_total = Some 7, entries = []\<rparr>"

text \<open>One hour of usage of two models of one family.\<close>

definition ex_bucket :: HistoryBucket where
  "ex_bucket =
     \<lparr>uscore_total = Some 3, plain_total = None,
      entries = [(''claude'', Fam [(''opus'', 1), (''sonnet'', 2), (''_subtotal'', 3)])]\<rparr>"

definition ex_history :: History where
  "ex_history = [(1000, ex_bucket)]"

text \<open>
  The first refresh, the user deselecting the model \<open>sonnet\<close>, and the next refresh;
  and the user deselecting everything, and the next refresh.
\<close>

definition first_refresh :: Dashboard where
  "first_refresh = fetchHistory 0 0 (Responded True (Json ex_history)) initial_dashboard"

definition after_deselect :: Dashboard where
  "after_deselect = toggleModel ''claude'' ''sonnet'' first_refresh"

definition next_refresh :: Dashboard where
  "next_refresh = fetchHistory 0 0 (Responded True (Json ex_history)) after_deselect"

definition refresh_after_deselectAll :: Dashboard where
  "refresh_after_deselectAll =
     fetchHistory 0 0 (Responded True (Json ex_history)) (deselectAll first_refresh)"

text \<open>A history in which a model name holds a colon.\<close>

definition colon_history :: History where
  "colon_history =
     [(1000, \<lparr>uscore_total = Some 10, plain_total = None,
              entries = [(''claude'', Fam [(''opus:beta'', 10), (''_subtotal'', 10)])]\<rparr>)]"

definition colon_dashboard :: Dashboard where
  "colon_dashboard = initial_dashboard\<lparr>historyData := colon_history\<rparr>"

text \<open>The inputs of the specification's scenarios.\<close>

definition scenario_history :: History where
  "scenario_history =
     [(1000, \<lparr>uscore_total = Some 45, plain_total = None,
              entries = [(''claude'', Fam [(''sonnet'', 10), (''opus'', 30), (''_subtotal'', 40)]),
                         (''gemini'', Fam [(''flash'', 5), (''_subtotal'', 5)])]\<rparr>)]"

definition scenario_accounts :: "Account list" where
  "scenario_accounts =
     [\<lparr>email = ''one@example.com'', enabled = Some True, status = ''ok'',
       limits = [(''opus'', ex_limit (Some (1 / 2)))]\<rparr>,
      \<lparr>email = ''two@example.com'', enabled = Some True, status = ''ok'',
       limits = [(''opus'', ex_limit (Some (1 / 100)))]\<rparr>,
      acc_off]"

definition scenario_selection :: Dashboard where
  "scenario_selection =
     initial_dashboard
       \<lparr>modelTree := [(''claude'', [''opus'']), (''gemini'', [''flash''])],
        families := [''claude'', ''gemini''],
        selectedFamilies := [''claude''],
        selectedModels := [(''claude'', [''opus''])]\<rparr>"

section \<open>Rounding to a double\<close>

text \<open>The literal \<open>0.05\<close> of \<open>updateStats\<close> reads as the threshold.\<close>

lemma threshold_double: "to_double (1 / 20) = threshold"
  by code_simp

lemma pow2_pos: "0 < pow2 k"
  by (simp add: pow2_def)

lemma pow2_Suc: "pow2 (k + 1) = 2 * pow2 k"
proof (cases "0 \<le> k")
  case True
  then show ?thesis by (simp add: pow2_def nat_add_distrib)
next
  case False
  then have "nat (- k) = Suc (nat (- (k + 1)))" by simp
  with False show ?thesis by (cases "k = - 1") (simp_all add: pow2_def)
qed

lemma pow2_pred: "pow2 (k - 1) = pow2 k / 2"
  using pow2_Suc [of "k - 1"] by simp

lemma binade_bounds: "0 < x \<Longrightarrow> pow2 (binade x) \<le> x \<and> x < 2 * pow2 (binade x)"
proof (induction x rule: binade.induct)
  case (1 x)
  show ?case
  proof (cases "2 \<le> x")
    case True
    with "1.prems" have b: "binade x = binade (x / 2) + 1" by (subst binade.simps) simp
    from "1.IH"(1) True "1.prems" have "pow2 (binade (x / 2)) \<le> x / 2 \<and> x / 2 < 2 * pow2 (binade (x / 2))"
      by simp
    then show ?thesis unfolding b pow2_Suc by simp
  next
    case False
    show ?thesis
    proof (cases "x < 1")
      case True
      with False "1.prems" have b: "binade x = binade (2 * x) - 1" by (subst binade.simps) simp
      from "1.IH"(2) True False "1.prems"
      have "pow2 (binade (2 * x)) \<le> 2 * x \<and> 2 * x < 2 * pow2 (binade (2 * x))" by simp
      then show ?thesis unfolding b pow2_pred by simp
    next
      case False
      with \<open>\<not> 2 \<le> x\<close> "1.prems" have "binade x = 0" by (subst binade.simps) simp
      with False \<open>\<not> 2 \<le> x\<close> show ?thesis by (simp add: pow2_def)
    qed
  qed
qed

lemma pow2_mono: "j \<le> k \<Longrightarrow> pow2 j \<le> pow2 k"
proof -
  have "pow2 (j + int n) \<ge> pow2 j" for n
  proof (induction n)
    case 0
    show ?case by simp
  next
    case (Suc n)
    have "pow2 (j + int (Suc n)) = 2 * pow2 (j + int n)"
      using pow2_Suc [of "j + int n"] by (simp add: ac_simps)
    with Suc pow2_pos [of "j + int n"] show ?case by simp
  qed
  from this [of "nat (k - j)"] show "j \<le> k \<Longrightarrow> pow2 j \<le> pow2 k" by simp
qed

lemma binade_small: "0 < x \<Longrightarrow> x \<le> 100 \<Longrightarrow> binade x \<le> 6"
proof (rule ccontr)
  assume x: "0 < x" "x \<le> 100" and "\<not> binade x \<le> 6"
  then have "7 \<le> binade x" by simp
  then have "pow2 7 \<le> pow2 (binade x)" by (rule pow2_mono)
  also have "\<dots> \<le> x" using binade_bounds [OF x(1)] by simp
  finally show False using x(2) by (simp add: pow2_def)
qed

lemma round_half_even_le: "m \<le> of_int N \<Longrightarrow> round_half_even m \<le> N"
proof -
  assume le: "m \<le> of_int N"
  then have f: "\<lfloor>m\<rfloor> \<le> N" by (simp add: floor_le_iff)
  show ?thesis
  proof (cases "\<lfloor>m\<rfloor> = N")
    case True
    then have "of_int N \<le> m" by (metis of_int_floor_le)
    with le have "m = of_int N" by simp
    then show ?thesis by (simp add: round_half_even_def)
  next
    case False
    with f have "\<lfloor>m\<rfloor> + 1 \<le> N" by simp
    then show ?thesis by (auto simp: round_half_even_def Let_def)
  qed
qed

lemma round_half_even_ge: "of_int N \<le> m \<Longrightarrow> N \<le> round_half_even m"
proof -
  assume "of_int N \<le> m"
  then have "N \<le> \<lfloor>m\<rfloor>" by (simp add: le_floor_iff)
  then show ?thesis by (auto simp: round_half_even_def Let_def)
qed

lemma to_double_between:
  assumes "0 \<le> x" "x \<le> 100"
  shows "of_int N \<le> x \<Longrightarrow> of_int N \<le> to_double x"
    and "x \<le> of_int N \<Longrightarrow> to_double x \<le> of_int N"
proof -
  define j where "j = max (binade \<bar>x\<bar> - 52) (- 1074)"
  define n where "n = nat (- j)"
  have j: "x \<noteq> 0 \<Longrightarrow> j < 0"
  proof -
    assume "x \<noteq> 0"
    with assms have "binade \<bar>x\<bar> \<le> 6" using binade_small [of x] by simp
    then show "j < 0" by (simp add: j_def)
  qed
  have q: "x \<noteq> 0 \<Longrightarrow> pow2 j = 1 / 2 ^ n" using j by (simp add: pow2_def n_def)
  have td: "x \<noteq> 0 \<Longrightarrow> to_double x = of_int (round_half_even (x / pow2 j)) * pow2 j"
    by (simp add: to_double_def j_def Let_def)
  show "of_int N \<le> to_double x" if le: "of_int N \<le> x"
  proof (cases "x = 0")
    case True
    with le show ?thesis by (simp add: to_double_def)
  next
    case False
    have "of_int (N * 2 ^ n) \<le> x / pow2 j" using le by (simp add: q [OF False] mult_right_mono)
    then have "N * 2 ^ n \<le> round_half_even (x / pow2 j)" by (rule round_half_even_ge)
    then have "(of_int (N * 2 ^ n) :: rat) \<le> of_int (round_half_even (x / pow2 j))"
      by (simp only: of_int_le_iff)
    then show ?thesis unfolding td [OF False] q [OF False] by (simp add: field_simps)
  qed
  show "to_double x \<le> of_int N" if le: "x \<le> of_int N"
  proof (cases "x = 0")
    case True
    with le show ?thesis by (simp add: to_double_def)
  next
    case False
    have "x / pow2 j \<le> of_int (N * 2 ^ n)" using le by (simp add: q [OF False] mult_right_mono)
    then have "round_half_even (x / pow2 j) \<le> N * 2 ^ n" by (rule round_half_even_le)
    then have "(of_int (round_half_even (x / pow2 j)) :: rat) \<le> of_int (N * 2 ^ n)"
      by (simp only: of_int_le_iff)
    then show ?thesis unfolding td [OF False] q [OF False] by (simp add: field_simps)
  qed
qed

lemma to_double_range:
  assumes "0 \<le> x" "x \<le> 100"
  shows "0 \<le> to_double x \<and> to_double x \<le> 100"
  using to_double_between [OF assms, of 0] to_double_between [OF assms, of 100] assms by simp

section \<open>The order of the quota rows\<close>

lemma set_insert_by: "set (insert_by cmp x xs) = insert x (set xs)"
  by (induction xs) auto

lemma set_js_sort: "set (js_sort cmp xs) = set xs"
  unfolding js_sort_def by (induction xs) (simp_all add: set_insert_by)

lemma length_insert_by: "length (insert_by cmp x xs) = Suc (length xs)"
  by (induction xs) auto

lemma length_js_sort: "length (js_sort cmp xs) = length xs"
  unfolding js_sort_def by (induction xs) (simp_all add: length_insert_by)

lemma sorted_insert_by:
  assumes tot: "\<And>a b. \<not> cmp a b \<le> 0 \<Longrightarrow> cmp b a \<le> 0"
    and tr: "\<And>a b c. cmp a b \<le> 0 \<Longrightarrow> cmp b c \<le> 0 \<Longrightarrow> cmp a c \<le> 0"
  shows "sorted_wrt (\<lambda>a b. cmp a b \<le> 0) xs \<Longrightarrow> sorted_wrt (\<lambda>a b. cmp a b \<le> 0) (insert_by cmp x xs)"
proof (induction xs)
  case Nil
  then show ?case by simp
next
  case (Cons y ys)
  show ?case
  proof (cases "cmp x y \<le> 0")
    case True
    with Cons.prems show ?thesis by (auto intro: tr)
  next
    case False
    then have "cmp y x \<le> 0" by (rule tot)
    with False Cons show ?thesis by (auto simp: set_insert_by)
  qed
qed

lemma sorted_js_sort:
  assumes tot: "\<And>a b. \<not> cmp a b \<le> 0 \<Longrightarrow> cmp b a \<le> 0"
    and tr: "\<And>a b c. cmp a b \<le> 0 \<Longrightarrow> cmp b c \<le> 0 \<Longrightarrow> cmp a c \<le> 0"
  shows "sorted_wrt (\<lambda>a b. cmp a b \<le> 0) (js_sort cmp xs)"
  unfolding js_sort_def
  by (induction xs) (simp_all add: sorted_insert_by [OF tot tr])

lemma row_cmp_total: "\<not> row_cmp a b \<le> 0 \<Longrightarrow> row_cmp b a \<le> 0"
  by (auto simp: row_cmp_def split: if_splits)

lemma row_cmp_trans: "row_cmp a b \<le> 0 \<Longrightarrow> row_cmp b c \<le> 0 \<Longrightarrow> row_cmp a c \<le> 0"
  by (auto simp: row_cmp_def split: if_splits)

lemma row_cmp_le_iff:
  "row_cmp a b \<le> 0 \<longleftrightarrow> (pinned a \<and> \<not> pinned b) \<or> (pinned a = pinned b \<and> avgQuota b \<le> avgQuota a)"
  by (auto simp: row_cmp_def)

lemma rows_sorted: "sorted_wrt (\<lambda>a b. row_cmp a b \<le> 0) (computeQuotaRows fmt sets st)"
  unfolding computeQuotaRows_def
  by (rule sorted_js_sort) (erule row_cmp_total, erule (1) row_cmp_trans)

text \<open>
  Claim C6.  In the output of \<open>computeQuotaRows\<close> a pinned row stands before every
  row that is not pinned, and among rows of equal pinned status \<open>avgQuota\<close> does
  not increase along the output.
\<close>

theorem computeQuotaRows_order:
  assumes "i < length (computeQuotaRows fmt sets st)"
    and "j < length (computeQuotaRows fmt sets st)"
  shows "(pinned (computeQuotaRows fmt sets st ! i) \<and> \<not> pinned (computeQuotaRows fmt sets st ! j) \<longrightarrow> i < j) \<and>
         (i < j \<and> pinned (computeQuotaRows fmt sets st ! i) = pinned (computeQuotaRows fmt sets st ! j)
            \<longrightarrow> avgQuota (computeQuotaRows fmt sets st ! j) \<le> avgQuota (computeQuotaRows fmt sets st ! i))"
proof -
  let ?out = "computeQuotaRows fmt sets st"
  have ord: "\<And>k l. k < l \<Longrightarrow> l < length ?out \<Longrightarrow> row_cmp (?out ! k) (?out ! l) \<le> 0"
    using rows_sorted [of fmt sets st] by (simp add: sorted_wrt_iff_nth_less)
  have first: "i < j" if p: "pinned (?out ! i)" "\<not> pinned (?out ! j)"
  proof (rule ccontr)
    assume "\<not> i < j"
    moreover from p have "i \<noteq> j" by auto
    ultimately have "j < i" by simp
    from ord [OF this assms(1)] p show False by (simp add: row_cmp_le_iff)
  qed
  have second: "avgQuota (?out ! j) \<le> avgQuota (?out ! i)"
    if "i < j" "pinned (?out ! i) = pinned (?out ! j)"
    using ord [OF that(1) assms(2)] that(2) by (simp add: row_cmp_le_iff)
  from first second show ?thesis by blast
qed

section \<open>What a quota row holds\<close>

lemma set_map_filter: "set (List.map_filter f xs) = {y. \<exists>x\<in>set xs. f x = Some y}"
  by (induction xs) (auto simp: List.map_filter_simps split: option.splits)

lemma row_in_output:
  "r \<in> set (computeQuotaRows fmt sets st) \<longleftrightarrow> (\<exists>mid\<in>set (models st). quota_row fmt sets st mid = Some r)"
  by (auto simp: computeQuotaRows_def set_js_sort set_map_filter)

lemma contributing_Nil: "contributing flt mid [] = []"
  by (simp add: contributing_def List.map_filter_simps)

lemma contributing_Cons:
  "contributing flt mid (a # accs) =
     (if passes_filter flt a then (case limit_of a mid of Some l \<Rightarrow> [l] | None \<Rightarrow> []) else [])
     @ contributing flt mid accs"
  by (simp add: contributing_def List.map_filter_simps split: option.splits)

lemma collect_account_skip:
  "\<not> passes_filter flt a \<or> limit_of a mid = None \<Longrightarrow> collect_account flt mid a c = c"
  by (auto simp: collect_account_def passes_filter_def)

lemma collect_account_take:
  "passes_filter flt a \<Longrightarrow> limit_of a mid = Some l \<Longrightarrow>
   collect_account flt mid a c =
     \<lparr>c_quotaInfo = c_quotaInfo c @
        [\<lparr>qi_email = takeWhile (\<lambda>ch. ch \<noteq> CHR ''@'') (email a),
          fullEmail = email a, pct = limit_pct l, qi_resetTime = resetTime l\<rparr>],
      c_minQuota = min (c_minQuota c) (limit_pct l),
      c_totalQuotaSum = c_totalQuotaSum c + limit_pct l,
      c_validAccountCount = Suc (c_validAccountCount c),
      c_minResetTime = earlier_reset (resetTime l) (c_minResetTime c)\<rparr>"
  by (auto simp: collect_account_def passes_filter_def Let_def)

lemma collect_step_cases:
  obtains (skip) "collect_account flt mid a c = c"
      "contributing flt mid (a # accs) = contributing flt mid accs"
  | (take) l where "passes_filter flt a" "limit_of a mid = Some l"
      "contributing flt mid (a # accs) = l # contributing flt mid accs"
proof (cases "passes_filter flt a \<and> limit_of a mid \<noteq> None")
  case True
  then obtain l where "passes_filter flt a" "limit_of a mid = Some l" by auto
  then show ?thesis by (auto intro: take simp: contributing_Cons)
next
  case False
  then show ?thesis by (auto intro!: skip simp: contributing_Cons collect_account_skip)
qed

lemma collect_sum:
  "c_totalQuotaSum (fold (collect_account flt mid) accs c) =
     c_totalQuotaSum c + sum_list (map limit_pct (contributing flt mid accs))"
proof (induction accs arbitrary: c)
  case Nil
  show ?case by (simp add: contributing_Nil)
next
  case (Cons a accs)
  show ?case
    by (cases rule: collect_step_cases [of flt mid a c accs])
       (simp_all add: Cons.IH collect_account_take)
qed

lemma collect_count:
  "c_validAccountCount (fold (collect_account flt mid) accs c) =
     c_validAccountCount c + length (contributing flt mid accs)"
proof (induction accs arbitrary: c)
  case Nil
  show ?case by (simp add: contributing_Nil)
next
  case (Cons a accs)
  show ?case
    by (cases rule: collect_step_cases [of flt mid a c accs])
       (simp_all add: Cons.IH collect_account_take)
qed

lemma collect_info:
  "map pct (c_quotaInfo (fold (collect_account flt mid) accs c)) =
     map pct (c_quotaInfo c) @ map limit_pct (contributing flt mid accs)"
proof (induction accs arbitrary: c)
  case Nil
  show ?case by (simp add: contributing_Nil)
next
  case (Cons a accs)
  show ?case
    by (cases rule: collect_step_cases [of flt mid a c accs])
       (simp_all add: Cons.IH collect_account_take)
qed

lemma collect_min:
  "c_minQuota (fold (collect_account flt mid) accs c) =
     Min (insert (c_minQuota c) (set (map limit_pct (contributing flt mid accs))))"
proof (induction accs arbitrary: c)
  case Nil
  show ?case by (simp add: contributing_Nil)
next
  case (Cons a accs)
  show ?case
  proof (cases rule: collect_step_cases [of flt mid a c accs])
    case skip
    then show ?thesis by (simp add: Cons.IH)
  next
    case (take l)
    let ?S = "set (map limit_pct (contributing flt mid accs))"
    have "Min (insert (min (c_minQuota c) (limit_pct l)) ?S) =
          Min (insert (c_minQuota c) (insert (limit_pct l) ?S))"
      by (cases "?S = {}") (simp_all add: min.assoc)
    with take show ?thesis
      by (simp add: Cons.IH collect_account_take)
  qed
qed

lemma quota_row_Some:
  assumes "quota_row fmt sets st mid = Some r"
  shows "modelId r = mid" and "\<not> isHidden st mid"
    and "contributing (filters st) mid (accounts st) \<noteq> []"
    and "map pct (quotaInfo r) = map limit_pct (contributing (filters st) mid (accounts st))"
    and "minQuota r = Min (insert 100 (set (map limit_pct (contributing (filters st) mid (accounts st)))))"
    and "avgQuota r = rounded_mean (map limit_pct (contributing (filters st) mid (accounts st)))"
proof -
  let ?c = "collect (filters st) mid (accounts st)"
  let ?ls = "contributing (filters st) mid (accounts st)"
  have info: "map pct (c_quotaInfo ?c) = map limit_pct ?ls"
    by (simp add: collect_def collect_info collect_init_def)
  have cnt: "c_validAccountCount ?c = length ?ls"
    by (simp add: collect_def collect_count collect_init_def)
  have sm: "c_totalQuotaSum ?c = sum_list (map limit_pct ?ls)"
    by (simp add: collect_def collect_sum collect_init_def)
  have mn: "c_minQuota ?c = Min (insert 100 (set (map limit_pct ?ls)))"
    by (simp add: collect_def collect_min collect_init_def)
  from assms have hid: "\<not> isHidden st mid"
    by (auto simp: quota_row_def Let_def split: if_splits)
  from assms have ne: "c_quotaInfo ?c \<noteq> []"
    by (auto simp: quota_row_def Let_def split: if_splits)
  with info have ne': "?ls \<noteq> []" by auto
  from assms ne have r: "modelId r = mid" "quotaInfo r = c_quotaInfo ?c" "minQuota r = c_minQuota ?c"
    "avgQuota r = (if c_validAccountCount ?c > 0
                   then js_round (to_double (of_int (c_totalQuotaSum ?c) / of_nat (c_validAccountCount ?c)))
                   else 0)"
    by (auto simp: quota_row_def Let_def split: if_splits)
  show "modelId r = mid" by (rule r(1))
  show "\<not> isHidden st mid" by (rule hid)
  show "?ls \<noteq> []" by (rule ne')
  show "map pct (quotaInfo r) = map limit_pct ?ls" using r(2) info by simp
  show "minQuota r = Min (insert 100 (set (map limit_pct ?ls)))" using r(3) mn by simp
  show "avgQuota r = rounded_mean (map limit_pct ?ls)"
    using r(4) cnt sm ne' by (simp add: rounded_mean_def)
qed

lemma js_round_range: "0 \<le> y \<Longrightarrow> y \<le> 100 \<Longrightarrow> 0 \<le> js_round y \<and> js_round y \<le> 100"
  unfolding js_round_def by (simp add: le_floor_iff)

lemma limit_pct_percentage: "limit_pct l = percentage (remainingFraction l)"
  by (simp add: limit_pct_def percentage_def)

lemma limit_pct_range: "limit_in_range l \<Longrightarrow> 0 \<le> limit_pct l \<and> limit_pct l \<le> 100"
proof (cases "remainingFraction l")
  case None
  then show ?thesis by (simp add: limit_pct_def)
next
  case (Some r)
  assume "limit_in_range l"
  with Some have "0 \<le> r * 100" "r * 100 \<le> 100" by (simp_all add: limit_in_range_def)
  then have "0 \<le> to_double (r * 100) \<and> to_double (r * 100) \<le> 100" by (rule to_double_range)
  then have "0 \<le> js_round (to_double (r * 100)) \<and> js_round (to_double (r * 100)) \<le> 100"
    using js_round_range by blast
  with Some show ?thesis by (simp add: limit_pct_def)
qed

lemma limit_of_mem: "limit_of acc mid = Some l \<Longrightarrow> (mid, Some l) \<in> set (limits acc)"
  by (auto simp: limit_of_def split: option.splits dest: map_of_SomeD)

lemma contributing_in_range:
  "fractions_in_range accs \<Longrightarrow> l \<in> set (contributing flt mid accs) \<Longrightarrow> limit_in_range l"
  by (fastforce simp: fractions_in_range_def contributing_def set_map_filter list_all_iff
        split: if_splits dest: limit_of_mem)

lemma contributing_pct_range:
  assumes "fractions_in_range accs" "p \<in> set (map limit_pct (contributing flt mid accs))"
  shows "0 \<le> p \<and> p \<le> 100"
  using assms contributing_in_range limit_pct_range by auto

section \<open>Minimum, average and visibility\<close>

lemma sum_list_lower: "\<forall>p\<in>set ps. m \<le> p \<Longrightarrow> m * int (length ps) \<le> sum_list ps"
  by (induction ps) (auto simp: algebra_simps intro: add_mono)

lemma sum_list_upper: "\<forall>p\<in>set ps. p \<le> m \<Longrightarrow> sum_list ps \<le> m * int (length ps)"
  by (induction ps) (auto simp: algebra_simps intro: add_mono)

lemma rounded_mean_bounds:
  assumes "ps \<noteq> []" and rng: "\<forall>p\<in>set ps. 0 \<le> p \<and> p \<le> 100" and low: "\<forall>p\<in>set ps. m \<le> p"
  shows "m \<le> rounded_mean ps \<and> rounded_mean ps \<le> 100"
proof -
  define x :: rat where "x = of_int (sum_list ps) / of_nat (length ps)"
  have n: "0 < (of_nat (length ps) :: rat)" using assms(1) by simp
  have bound: "of_int k * of_nat (length ps) \<le> (of_int (sum_list ps) :: rat)"
    if "\<forall>p\<in>set ps. k \<le> p" for k
    using sum_list_lower [of ps k] that
    by (metis (no_types) of_int_le_iff of_int_mult of_int_of_nat_eq)
  have "(of_int (sum_list ps) :: rat) \<le> of_int 100 * of_nat (length ps)"
    using sum_list_upper [of ps 100] rng
    by (metis (no_types) of_int_le_iff of_int_mult of_int_of_nat_eq)
  then have up: "x \<le> 100" using n by (simp add: x_def pos_divide_le_eq)
  have "of_int 0 * of_nat (length ps) \<le> (of_int (sum_list ps) :: rat)"
    using rng by (intro bound) simp
  then have lo: "0 \<le> x" using n by (simp add: x_def)
  have "of_int m \<le> x" using bound [OF low] n by (simp add: x_def pos_le_divide_eq)
  then have "of_int m \<le> to_double x" by (rule to_double_between(1) [OF lo up])
  then have "(of_int m :: rat) \<le> to_double x + 1 / 2" by simp
  then have m: "m \<le> js_round (to_double x)" unfolding js_round_def by (simp only: le_floor_iff)
  have "to_double x \<le> 100" using to_double_range [OF lo up] by simp
  then have "to_double x + 1 / 2 < (of_int (100 + 1) :: rat)" by simp
  then have "js_round (to_double x) < 100 + 1" unfolding js_round_def by (simp only: floor_less_iff)
  with m show ?thesis by (simp add: rounded_mean_def x_def)
qed

text \<open>
  The percentage at the double 0.015: the program's product is the double 1.5,
  which rounds to 2; the exact product lies below 1.5.
\<close>

lemma percentage_double_product:
  "to_double (3 / 200) = 1080863910568919 / 2 ^ 56 \<and>
   to_double (to_double (3 / 200) * 100) = 3 / 2 \<and>
   percentage (Some (to_double (3 / 200))) = 2 \<and>
   js_round (to_double (3 / 200) * 100) = 1"
  by code_simp

text \<open>
  Claim C2.  For every row that \<open>computeQuotaRows\<close> emits, the accounts that pass
  the account filter and have a limit for the row's model contribute, in order,
  the percentages \<open>round(remainingFraction * 100)\<close> (0 for \<open>null\<close>); there is at
  least one, and \<open>avgQuota\<close> is their rounded arithmetic mean.  For the fractions
  of the data model, \<open>null\<close> or in \<open>[0, 1]\<close>, \<open>minQuota\<close> is the minimum of these
  percentages.
\<close>

theorem quota_row_min_avg:
  assumes "r \<in> set (computeQuotaRows fmt sets st)"
  shows "contributing (filters st) (modelId r) (accounts st) \<noteq> [] \<and>
         map pct (quotaInfo r) =
           map (\<lambda>l. percentage (remainingFraction l))
             (contributing (filters st) (modelId r) (accounts st)) \<and>
         avgQuota r =
           rounded_mean (map (\<lambda>l. percentage (remainingFraction l))
             (contributing (filters st) (modelId r) (accounts st))) \<and>
         (fractions_in_range (accounts st) \<longrightarrow>
          minQuota r =
            Min (set (map (\<lambda>l. percentage (remainingFraction l))
              (contributing (filters st) (modelId r) (accounts st)))))"
proof -
  from assms(1) obtain mid where row: "quota_row fmt sets st mid = Some r"
    by (auto simp: row_in_output)
  have mid: "modelId r = mid" by (rule quota_row_Some(1) [OF row])
  let ?ps = "map limit_pct (contributing (filters st) mid (accounts st))"
  have ps: "map (\<lambda>l. percentage (remainingFraction l)) (contributing (filters st) mid (accounts st)) = ?ps"
    by (simp add: limit_pct_percentage)
  have ne: "contributing (filters st) mid (accounts st) \<noteq> []" by (rule quota_row_Some(3) [OF row])
  then have ne': "set ?ps \<noteq> {}" by simp
  have mn: "minQuota r = Min (set ?ps)" if rng: "fractions_in_range (accounts st)"
  proof -
    have "\<And>p. p \<in> set ?ps \<Longrightarrow> p \<le> 100"
      using contributing_pct_range [OF rng] by blast
    then have "Min (set ?ps) \<le> 100" using ne' by (simp add: Min_le_iff)
    then have "Min (insert 100 (set ?ps)) = Min (set ?ps)"
      using ne' by (simp add: min_absorb2)
    with quota_row_Some(5) [OF row] show ?thesis by simp
  qed
  from quota_row_Some(4,6) [OF row] ne mn show ?thesis
    unfolding mid ps by blast
qed

text \<open>
  Claim C10.  When every \<open>remainingFraction\<close> of the snapshot is \<open>null\<close> or lies in
  \<open>[0, 1]\<close>, every emitted row has \<open>0 \<le> minQuota \<le> avgQuota \<le> 100\<close>.
\<close>

theorem quota_row_bounds:
  assumes "r \<in> set (computeQuotaRows fmt sets st)"
    and "fractions_in_range (accounts st)"
  shows "0 \<le> minQuota r \<and> minQuota r \<le> avgQuota r \<and> avgQuota r \<le> 100"
proof -
  from assms(1) obtain mid where row: "quota_row fmt sets st mid = Some r"
    by (auto simp: row_in_output)
  let ?ps = "map limit_pct (contributing (filters st) mid (accounts st))"
  have ne: "?ps \<noteq> []" using quota_row_Some(3) [OF row] by simp
  have rng: "\<And>p. p \<in> set ?ps \<Longrightarrow> 0 \<le> p \<and> p \<le> 100"
    using contributing_pct_range [OF assms(2)] by blast
  have mn: "minQuota r = Min (insert 100 (set ?ps))" by (rule quota_row_Some(5) [OF row])
  have av: "avgQuota r = rounded_mean ?ps" by (rule quota_row_Some(6) [OF row])
  have "0 \<le> minQuota r" unfolding mn using rng by (simp add: Min_ge_iff)
  moreover have "minQuota r \<le> rounded_mean ?ps \<and> rounded_mean ?ps \<le> 100"
  proof (rule rounded_mean_bounds [OF ne])
    show "\<forall>p\<in>set ?ps. 0 \<le> p \<and> p \<le> 100" using rng by blast
    show "\<forall>p\<in>set ?ps. minQuota r \<le> p" unfolding mn by (simp add: Min_le_iff)
  qed
  ultimately show ?thesis by (simp add: av)
qed

lemma unfiltered_info_nonempty:
  "unfiltered_info mid accs \<noteq> [] \<longleftrightarrow> (\<exists>acc\<in>set accs. limit_of acc mid \<noteq> None)"
  by (induction accs) (auto simp: unfiltered_info_def List.map_filter_simps split: option.splits)

lemma unfiltered_in_output:
  "u \<in> set (getUnfilteredQuotaData sets st) \<longleftrightarrow> (\<exists>mid\<in>set (models st). unfiltered_row sets st mid = Some u)"
  by (auto simp: getUnfilteredQuotaData_def set_map_filter)

text \<open>
  Claim C7.  A model id of family \<open>other\<close> for which no configuration entry sets
  \<open>hidden\<close> appears in no output of \<open>computeQuotaRows\<close>, whatever the filters and
  settings; when it is one of the store's models, \<open>showHiddenModels\<close> is true and
  some account has a limit for it, it appears in the output of
  \<open>getUnfilteredQuotaData\<close>.
\<close>

theorem other_family_hidden_by_default:
  assumes "getModelFamily mid = ''other''"
    and "case modelConfig st mid of None \<Rightarrow> True | Some c \<Rightarrow> cfg_hidden c = None"
  shows "mid \<notin> modelId ` set (computeQuotaRows fmt sets st) \<and>
         (mid \<in> set (models st) \<and> showHiddenModels sets' = Some True \<and>
          (\<exists>acc\<in>set (accounts st). limit_of acc mid \<noteq> None)
          \<longrightarrow> mid \<in> u_modelId ` set (getUnfilteredQuotaData sets' st))"
proof -
  from assms have hid: "isHidden st mid"
    by (auto simp: isHidden_def config_of_def split: option.splits)
  have "mid \<notin> modelId ` set (computeQuotaRows fmt sets st)"
  proof
    assume "mid \<in> modelId ` set (computeQuotaRows fmt sets st)"
    then obtain r m where "quota_row fmt sets st m = Some r" "modelId r = mid"
      by (auto simp: row_in_output)
    with quota_row_Some(1,2) [of fmt sets st m r] hid show False by simp
  qed
  moreover have "mid \<in> u_modelId ` set (getUnfilteredQuotaData sets' st)"
    if m: "mid \<in> set (models st)" and sh: "showHiddenModels sets' = Some True"
      and lim: "\<exists>acc\<in>set (accounts st). limit_of acc mid \<noteq> None"
  proof -
    from lim have "unfiltered_info mid (accounts st) \<noteq> []" by (simp add: unfiltered_info_nonempty)
    with sh have "unfiltered_row sets' st mid =
        Some \<lparr>u_modelId = mid, u_family = getModelFamily mid,
              u_quotaInfo = unfiltered_info mid (accounts st)\<rparr>"
      by (simp add: unfiltered_row_def Let_def)
    with m have "\<lparr>u_modelId = mid, u_family = getModelFamily mid,
              u_quotaInfo = unfiltered_info mid (accounts st)\<rparr> \<in> set (getUnfilteredQuotaData sets' st)"
      by (auto simp: unfiltered_in_output)
    then show ?thesis by force
  qed
  ultimately show ?thesis by blast
qed

section \<open>The properties on the example snapshot\<close>

lemma ex_rows_length: "length ex_rows = 3"
  unfolding ex_rows_def by code_simp

lemma ex_in_range: "fractions_in_range (accounts ex_store)"
  by code_simp

theorem computeQuotaRows_order_witness:
  "0 < length ex_rows \<and> 1 < length ex_rows \<and> 2 < length ex_rows \<and>
   pinned (ex_rows ! 0) \<and> \<not> pinned (ex_rows ! 1) \<and>
   pinned (ex_rows ! 1) = pinned (ex_rows ! 2) \<and>
   avgQuota (ex_rows ! 2) \<le> avgQuota (ex_rows ! 1)"
proof -
  have l: "0 < length ex_rows" "1 < length ex_rows" "2 < length ex_rows"
    by (simp_all add: ex_rows_length)
  have p: "pinned (ex_rows ! 0) \<and> \<not> pinned (ex_rows ! 1)"
    unfolding ex_rows_def by code_simp
  have q: "pinned (ex_rows ! 1) = pinned (ex_rows ! 2)"
    unfolding ex_rows_def by code_simp
  have "avgQuota (ex_rows ! 2) \<le> avgQuota (ex_rows ! 1)"
    using computeQuotaRows_order [of 1 ex_format ex_settings ex_store 2] l q
    by (simp add: ex_rows_def)
  with l p q show ?thesis by simp
qed

lemma tie_rows_length: "length tie_rows = 1"
  unfolding tie_rows_def by code_simp

theorem quota_row_min_avg_witness:
  "tie_rows ! 0 \<in> set tie_rows \<and> fractions_in_range (accounts tie_store) \<and>
   map pct (quotaInfo (tie_rows ! 0)) = [2, 20] \<and>
   minQuota (tie_rows ! 0) = 2 \<and> avgQuota (tie_rows ! 0) = 11"
proof -
  have m: "tie_rows ! 0 \<in> set tie_rows" by (simp add: tie_rows_length)
  have rng: "fractions_in_range (accounts tie_store)" by code_simp
  have mid: "modelId (tie_rows ! 0) = ''claude-tie''" unfolding tie_rows_def by code_simp
  have c: "map (\<lambda>l. percentage (remainingFraction l))
             (contributing (filters tie_store) ''claude-tie'' (accounts tie_store)) = [2, 20]"
    by code_simp
  have r: "rounded_mean [2, 20] = 11" by code_simp
  from quota_row_min_avg [OF m [unfolded tie_rows_def]]
  show ?thesis using m rng r by (simp add: tie_rows_def [symmetric] mid c)
qed

theorem quota_row_bounds_witness:
  "ex_rows ! 0 \<in> set ex_rows \<and> fractions_in_range (accounts ex_store) \<and>
   0 \<le> minQuota (ex_rows ! 0) \<and> minQuota (ex_rows ! 0) \<le> avgQuota (ex_rows ! 0) \<and>
   avgQuota (ex_rows ! 0) \<le> 100"
proof -
  have m: "ex_rows ! 0 \<in> set ex_rows" by (simp add: ex_rows_length)
  from quota_row_bounds [OF m [unfolded ex_rows_def] ex_in_range]
  show ?thesis using m ex_in_range by (simp add: ex_rows_def [symmetric])
qed

theorem other_family_hidden_by_default_witness:
  "getModelFamily ''mystery-model'' = ''other'' \<and>
   (case modelConfig ex_store ''mystery-model'' of None \<Rightarrow> True | Some c \<Rightarrow> cfg_hidden c = None) \<and>
   ''mystery-model'' \<in> set (models ex_store) \<and> showHiddenModels show_hidden = Some True \<and>
   (\<exists>acc\<in>set (accounts ex_store). limit_of acc ''mystery-model'' \<noteq> None) \<and>
   ''mystery-model'' \<notin> modelId ` set (computeQuotaRows ex_format ex_settings ex_store) \<and>
   ''mystery-model'' \<in> u_modelId ` set (getUnfilteredQuotaData show_hidden ex_store)"
proof -
  have f: "getModelFamily ''mystery-model'' = ''other''" by code_simp
  have c: "case modelConfig ex_store ''mystery-model'' of None \<Rightarrow> True | Some c \<Rightarrow> cfg_hidden c = None"
    by code_simp
  have a: "''mystery-model'' \<in> set (models ex_store) \<and> showHiddenModels show_hidden = Some True \<and>
      (\<exists>acc\<in>set (accounts ex_store). limit_of acc ''mystery-model'' \<noteq> None)"
    by code_simp
  from other_family_hidden_by_default [OF f c, of ex_format ex_settings show_hidden] a f c
  show ?thesis by blast
qed

section \<open>The summary counters\<close>

lemma fold_count_account:
  "fold count_account xs (a, l) =
     (a + length (filter (\<lambda>acc. status acc = ''ok'' \<and> hasActiveCore acc) xs),
      l + length (filter (\<lambda>acc. \<not> (status acc = ''ok'' \<and> hasActiveCore acc)) xs))"
  by (induction xs arbitrary: a l) (auto simp: count_account_def)

lemma enabledAccounts_idem: "enabledAccounts (enabledAccounts accs) = enabledAccounts accs"
  by (simp add: enabledAccounts_def)

text \<open>
  Claim C9.  The counters of \<open>updateStats\<close> satisfy total = active + limited: each
  account that is not disabled is counted once in the total and in exactly one of
  active and limited, and the counters are those of the snapshot with the
  disabled accounts removed.
\<close>

theorem updateStats_counters:
  "stat_total (stats (updateStats accs d)) =
     active (stats (updateStats accs d)) + limited (stats (updateStats accs d)) \<and>
   stat_total (stats (updateStats accs d)) = length (filter (\<lambda>acc. enabled acc \<noteq> Some False) accs) \<and>
   active (stats (updateStats accs d)) =
     length (filter (\<lambda>acc. enabled acc \<noteq> Some False \<and> status acc = ''ok'' \<and> hasActiveCore acc) accs) \<and>
   limited (stats (updateStats accs d)) =
     length (filter (\<lambda>acc. enabled acc \<noteq> Some False \<and> \<not> (status acc = ''ok'' \<and> hasActiveCore acc)) accs) \<and>
   stats (updateStats accs d) = stats (updateStats (filter (\<lambda>acc. enabled acc \<noteq> Some False) accs) d)"
proof -
  let ?P = "\<lambda>acc. status acc = ''ok'' \<and> hasActiveCore acc"
  have len: "length (enabledAccounts accs) =
      length (filter ?P (enabledAccounts accs)) + length (filter (\<lambda>acc. \<not> ?P acc) (enabledAccounts accs))"
    by (rule sum_length_filter_compl [symmetric])
  have idem: "enabledAccounts (filter (\<lambda>acc. enabled acc \<noteq> Some False) accs) = enabledAccounts accs"
    by (simp add: enabledAccounts_def)
  show ?thesis
    unfolding updateStats_def idem
    using len by (simp add: fold_count_account enabledAccounts_def conj_commute conj_left_commute)
qed

theorem updateStats_counters_witness:
  "stat_total (stats (updateStats [acc_a, acc_off, acc_b] initial_dashboard)) = 2 \<and>
   active (stats (updateStats [acc_a, acc_off, acc_b] initial_dashboard)) +
   limited (stats (updateStats [acc_a, acc_off, acc_b] initial_dashboard)) = 2"
proof -
  have n: "length (filter (\<lambda>acc. enabled acc \<noteq> Some False) [acc_a, acc_off, acc_b]) = 2"
    by code_simp
  from updateStats_counters [of "[acc_a, acc_off, acc_b]" initial_dashboard]
  have "stat_total (stats (updateStats [acc_a, acc_off, acc_b] initial_dashboard)) =
          active (stats (updateStats [acc_a, acc_off, acc_b] initial_dashboard)) +
          limited (stats (updateStats [acc_a, acc_off, acc_b] initial_dashboard))"
    and "stat_total (stats (updateStats [acc_a, acc_off, acc_b] initial_dashboard)) =
          length (filter (\<lambda>acc. enabled acc \<noteq> Some False) [acc_a, acc_off, acc_b])"
    by blast+
  with n show ?thesis by (simp only:)
qed

section \<open>The usage total of the history\<close>

lemma hourTotal_falsy: "hourTotal b = falsy_total b"
  by (simp add: hourTotal_def js_or_def falsy_total_def nullish_total_def split: option.splits)

lemma hourTotal_nullish: "uscore_total b \<noteq> Some 0 \<Longrightarrow> hourTotal b = nullish_total b"
  by (simp add: hourTotal_falsy falsy_total_def)

lemma fold_history_total:
  "r_total (fold (history_entry todayStart currentHour) history r) =
     r_total r + sum_list (map (\<lambda>e. hourTotal (snd e)) history)"
  by (induction history arbitrary: r) (auto simp: history_entry_def split: prod.splits)

lemma usageStats_savePreferences: "usageStats (savePreferences d) = usageStats d"
  by (simp add: savePreferences_def)

lemma usageStats_extend: "usageStats (fold (extend_family tree) fams d) = usageStats d"
  by (induction fams arbitrary: d) (simp_all add: extend_family_def)

lemma usageStats_select_models:
  "usageStats (fold (\<lambda>fam d'. d'\<lparr>selectedModels := AList.update fam (array_at tree fam) (selectedModels d')\<rparr>) fams d)
     = usageStats d"
  by (induction fams arbitrary: d) simp_all

lemma usageStats_autoSelectNew: "usageStats (autoSelectNew d) = usageStats d"
  by (simp add: autoSelectNew_def usageStats_savePreferences usageStats_extend
        select_everything_def usageStats_select_models)

text \<open>
  Claim C4, as amended.  Every bucket adds to the running usage total its \<open>_total\<close>
  if that is present, not \<open>null\<close> and not 0, otherwise its \<open>total\<close> if that is
  present and not \<open>null\<close>, otherwise 0: the total after \<open>processHistory\<close> is the sum
  of these amounts.  An explicit \<open>_total\<close> of 0 is passed over like an absent one.
\<close>

theorem processHistory_total:
  "r_total (history_entry todayStart currentHour (timestamp, b) r) = r_total r + falsy_total b \<and>
   usage_total (usageStats (processHistory todayStart currentHour history d)) =
     sum_list (map (\<lambda>e. falsy_total (snd e)) history)"
  by (simp add: processHistory_def Let_def usageStats_autoSelectNew run_history_def
        fold_history_total hourTotal_falsy history_entry_def)

text \<open>
  The claim as stated fails on a bucket with \<open>_total = 0\<close> and \<open>total = 7\<close>: read with
  nullish coalescing it adds 0, the code adds 7.
\<close>

theorem nullish_total_counterexample:
  "nullish_total zero_bucket = 0 \<and> hourTotal zero_bucket = 7 \<and>
   usage_total (usageStats (processHistory 0 0 [(1000, zero_bucket)] initial_dashboard)) = 7"
  by code_simp

theorem processHistory_total_witness:
  "usage_total (usageStats (processHistory 0 0 [(1000, zero_bucket), (2000, ex_bucket)] initial_dashboard)) = 10"
proof -
  have "sum_list (map (\<lambda>e. falsy_total (snd e)) [(1000, zero_bucket), (2000, ex_bucket)]) = 10"
    by code_simp
  with processHistory_total [of 0 0 1000 zero_bucket _ "[(1000, zero_bucket), (2000, ex_bucket)]" initial_dashboard]
  show ?thesis by simp
qed

section \<open>Fetching the history\<close>

lemma fetchHistory_rejected:
  "hasTrendData (stats (fetchHistory todayStart currentHour Rejected d)) \<and>
   console (fetchHistory todayStart currentHour Rejected d) = console d @ [''Failed to fetch usage history:'']"
  by (simp add: fetchHistory_def fetch_failed_def)

lemma fetchHistory_not_ok: "fetchHistory todayStart currentHour (Responded False b) d = d"
  by (simp add: fetchHistory_def)

text \<open>
  Claim C5.  A history fetch that fails is logged and still sets \<open>hasTrendData\<close>.
  The code does so when the request throws; an answer that is not ok changes
  nothing: on the fresh component \<open>hasTrendData\<close> stays false and nothing is
  logged.
\<close>

theorem fetchHistory_not_ok_ignored:
  "hasTrendData (stats initial_dashboard) = False \<and>
   hasTrendData (stats (fetchHistory 0 0 (Responded False BadJson) initial_dashboard)) = False \<and>
   console (fetchHistory 0 0 (Responded False BadJson) initial_dashboard) = [] \<and>
   hasTrendData (stats (fetchHistory 0 0 Rejected initial_dashboard)) = True"
  by code_simp

section \<open>Disabled accounts\<close>

text \<open>
  Claim C1.  A disabled account contributes to no aggregate.  On the snapshot
  whose only account is disabled, \<open>updateStats\<close> counts no account, but
  \<open>computeQuotaRows\<close> emits a row whose \<open>quotaInfo\<close>, \<open>minQuota\<close> and \<open>avgQuota\<close>
  come from that account, and \<open>getUnfilteredQuotaData\<close> emits its percentage.
\<close>

theorem disabled_account_in_quota_rows:
  "enabled acc_off = Some False \<and> accounts off_store = [acc_off] \<and>
   map (\<lambda>r. (modelId r, minQuota r, avgQuota r, map fullEmail (quotaInfo r)))
     (computeQuotaRows ex_format ex_settings off_store)
     = [(''claude-sonnet'', 50, 50, [''off@example.com''])] \<and>
   map (\<lambda>u. (u_modelId u, u_quotaInfo u)) (getUnfilteredQuotaData ex_settings off_store)
     = [(''claude-sonnet'', [50])] \<and>
   stat_total (stats (updateStats (accounts off_store) initial_dashboard)) = 0"
  by code_simp

section \<open>Extending the selection\<close>

lemma fold_push_new:
  "\<exists>new. fold push_new xs ys = ys @ new \<and> distinct new \<and> set new = set xs - set ys"
proof (induction xs arbitrary: ys)
  case Nil
  show ?case by simp
next
  case (Cons x xs)
  show ?case
  proof (cases "x \<in> set ys")
    case True
    from Cons.IH [of ys] obtain new where
      n: "fold push_new xs ys = ys @ new" "distinct new" "set new = set xs - set ys" by blast
    have "push_new x ys = ys" using True by (simp add: push_new_def)
    then have "fold push_new (x # xs) ys = ys @ new" using n(1) by simp
    moreover have "set new = set (x # xs) - set ys" using n(3) True by auto
    ultimately show ?thesis using n(2) by blast
  next
    case False
    from Cons.IH [of "ys @ [x]"] obtain new where
      n: "fold push_new xs (ys @ [x]) = (ys @ [x]) @ new" "distinct new"
         "set new = set xs - set (ys @ [x])" by blast
    have "push_new x ys = ys @ [x]" using False by (simp add: push_new_def)
    then have "fold push_new (x # xs) ys = ys @ (x # new)" using n(1) by simp
    moreover have "distinct (x # new)" using n(2,3) by auto
    moreover have "set (x # new) = set (x # xs) - set ys" using n(3) False by auto
    ultimately show ?thesis by blast
  qed
qed

lemma fold_push_new_absorb: "set xs \<subseteq> set ys \<Longrightarrow> fold push_new xs ys = ys"
  by (induction xs) (auto simp: push_new_def)

lemma fold_push_new_idem: "fold push_new xs (fold push_new xs ys) = fold push_new xs ys"
proof -
  obtain new where "fold push_new xs ys = ys @ new" "set new = set xs - set ys"
    using fold_push_new [of xs ys] by blast
  then have "set xs \<subseteq> set (fold push_new xs ys)" by auto
  then show ?thesis by (rule fold_push_new_absorb)
qed

lemma array_at_update: "array_at (AList.update k v al) k' = (if k' = k then v else array_at al k')"
  by (simp add: array_at_def update_conv')

lemma extend_families:
  "selectedFamilies (fold (extend_family tree) fams d) = fold push_new fams (selectedFamilies d)"
  by (induction fams arbitrary: d) (simp_all add: extend_family_def)

lemma extend_models:
  "map_of (selectedModels (fold (extend_family tree) fams d)) fam =
     (if fam \<in> set fams
      then Some (fold push_new (array_at tree fam) (array_at (selectedModels d) fam))
      else map_of (selectedModels d) fam)"
proof (induction fams arbitrary: d)
  case Nil
  show ?case by simp
next
  case (Cons f fs)
  let ?d1 = "extend_family tree f d"
  have arr: "array_at (selectedModels ?d1) fam =
      (if fam = f then fold push_new (array_at tree f) (array_at (selectedModels d) f)
       else array_at (selectedModels d) fam)"
    by (simp add: extend_family_def array_at_update)
  have mp: "map_of (selectedModels ?d1) fam =
      (if fam = f then Some (fold push_new (array_at tree f) (array_at (selectedModels d) f))
       else map_of (selectedModels d) fam)"
    by (simp add: extend_family_def update_conv')
  show ?case
  proof (cases "fam = f")
    case True
    with arr mp have
      "array_at (selectedModels ?d1) f = fold push_new (array_at tree f) (array_at (selectedModels d) f)"
      "map_of (selectedModels ?d1) f = Some (fold push_new (array_at tree f) (array_at (selectedModels d) f))"
      by simp_all
    with True show ?thesis
      using Cons.IH [of ?d1] by (simp add: fold_push_new_idem)
  next
    case False
    with arr mp have "array_at (selectedModels ?d1) fam = array_at (selectedModels d) fam"
      "map_of (selectedModels ?d1) fam = map_of (selectedModels d) fam"
      by simp_all
    with False show ?thesis
      using Cons.IH [of ?d1] by simp
  qed
qed

text \<open>
  What the extension step does on a selection that is not empty: it only appends.
  \<open>selectedFamilies\<close> keeps its entries and gains, once each, the families of the
  refresh it did not hold; for each family of the refresh \<open>selectedModels[family]\<close>
  keeps its entries and gains, once each, the discovered models it did not hold;
  the entries of other families stay as they are.
\<close>

lemma autoSelectNew_appends:
  assumes "\<not> (selectedFamilies d = [] \<and> selectedModels d = [])"
  shows "(\<exists>new. selectedFamilies (autoSelectNew d) = selectedFamilies d @ new \<and> distinct new \<and>
                set new = set (families d) - set (selectedFamilies d)) \<and>
         (\<forall>fam. fam \<in> set (families d) \<longrightarrow>
            (\<exists>new. array_at (selectedModels (autoSelectNew d)) fam =
                      array_at (selectedModels d) fam @ new \<and> distinct new \<and>
                    set new = set (array_at (modelTree d) fam) - set (array_at (selectedModels d) fam))) \<and>
         (\<forall>fam. fam \<notin> set (families d) \<longrightarrow>
            map_of (selectedModels (autoSelectNew d)) fam = map_of (selectedModels d) fam)"
proof -
  from assms have eq: "autoSelectNew d = fold (extend_family (modelTree d)) (families d) d"
    by (auto simp: autoSelectNew_def)
  have fams: "\<exists>new. selectedFamilies (autoSelectNew d) = selectedFamilies d @ new \<and> distinct new \<and>
                set new = set (families d) - set (selectedFamilies d)"
    unfolding eq extend_families by (rule fold_push_new)
  have mods: "\<exists>new. array_at (selectedModels (autoSelectNew d)) fam =
                      array_at (selectedModels d) fam @ new \<and> distinct new \<and>
                    set new = set (array_at (modelTree d) fam) - set (array_at (selectedModels d) fam)"
    if "fam \<in> set (families d)" for fam
  proof -
    have "array_at (selectedModels (autoSelectNew d)) fam =
        fold push_new (array_at (modelTree d) fam) (array_at (selectedModels d) fam)"
      using that unfolding eq by (simp add: array_at_def [of "selectedModels (fold _ _ _)"] extend_models)
    then show ?thesis using fold_push_new [of "array_at (modelTree d) fam" "array_at (selectedModels d) fam"]
      by simp
  qed
  have rest: "map_of (selectedModels (autoSelectNew d)) fam = map_of (selectedModels d) fam"
    if "fam \<notin> set (families d)" for fam
    using that unfolding eq by (simp add: extend_models)
  from fams mods rest show ?thesis by blast
qed

text \<open>
  Claim C3.  A refresh after the first never selects again what the user
  deselected.  The code does: after the first refresh the user deselects the model
  \<open>sonnet\<close>, which is saved, and the next refresh appends \<open>sonnet\<close> again; after
  \<open>deselectAll\<close>, which saves the empty selection, the next refresh selects
  everything.
\<close>

theorem deselection_reverted:
  "selectedFamilies after_deselect = [''claude''] \<and>
   selectedModels after_deselect = [(''claude'', [''opus''])] \<and>
   map_option p_selectedModels (storage after_deselect) = Some [(''claude'', [''opus''])] \<and>
   selectedModels next_refresh = [(''claude'', [''opus'', ''sonnet''])] \<and>
   selectedFamilies (deselectAll first_refresh) = [] \<and>
   selectedModels (deselectAll first_refresh) = [] \<and>
   selectedFamilies refresh_after_deselectAll = [''claude''] \<and>
   selectedModels refresh_after_deselectAll = [(''claude'', [''opus'', ''sonnet''])]"
  by code_simp

section \<open>Top-N selection\<close>

subsection \<open>The usage loop as one fold\<close>

lemma fold_add_model:
  "fold (add_model fam) ms usage =
     fold add_usage (map (\<lambda>(model, n). ((fam, model), n)) (filter (\<lambda>(model, n). model \<noteq> ''_subtotal'') ms)) usage"
  by (induction ms arbitrary: usage) (auto simp: add_model_def add_usage_def Let_def)

lemma add_family_usage: "add_family fv usage = fold add_usage (family_usage fv) usage"
  by (cases fv; cases "snd fv") (auto simp: add_family_def family_usage_def fold_add_model)

lemma fold_add_family:
  "fold add_family es usage = fold add_usage (concat (map family_usage es)) usage"
  by (induction es arbitrary: usage) (simp_all add: add_family_usage)

lemma fold_add_bucket:
  "fold (add_bucket start) history usage = fold add_usage (window_usage start history) usage"
  by (induction history arbitrary: usage)
     (auto simp: add_bucket_def window_usage_def fold_add_family)

lemma usage_of_window: "usage_of start history = fold add_usage (window_usage start history) []"
  by (simp add: usage_of_def fold_add_bucket)

lemma fold_add_usage_tally:
  "fold add_usage us al = tally (map (\<lambda>u. (pair_key (fst u), snd u)) us) al"
  by (induction us arbitrary: al) (simp_all add: tally_def add_usage_def pair_key_def)

subsection \<open>First occurrences\<close>

lemma set_first_occurrences: "set (first_occurrences xs) = set xs"
  by (induction xs) auto

lemma distinct_first_occurrences: "distinct (first_occurrences xs)"
  by (induction xs) (auto simp: distinct_removeAll)

lemma fold_push_new_first:
  "fold push_new xs ys = ys @ filter (\<lambda>x. x \<notin> set ys) (first_occurrences xs)"
proof (induction xs arbitrary: ys)
  case Nil
  show ?case by simp
next
  case (Cons x xs)
  show ?case
  proof (cases "x \<in> set ys")
    case True
    then have "push_new x ys = ys" by (simp add: push_new_def)
    moreover have "filter (\<lambda>z. z \<notin> set ys) (removeAll x (first_occurrences xs)) =
        filter (\<lambda>z. z \<notin> set ys) (first_occurrences xs)"
      using True by (auto simp: removeAll_filter_not_eq intro: filter_cong)
    ultimately show ?thesis using True by (simp add: Cons.IH)
  next
    case False
    then have "push_new x ys = ys @ [x]" by (simp add: push_new_def)
    moreover have "filter (\<lambda>z. z \<notin> set (ys @ [x])) (first_occurrences xs) =
        filter (\<lambda>z. z \<notin> set ys) (removeAll x (first_occurrences xs))"
      by (auto simp: removeAll_filter_not_eq intro: filter_cong)
    ultimately show ?thesis using False by (simp add: Cons.IH)
  qed
qed

lemma fold_push_new_Nil: "fold push_new xs [] = first_occurrences xs"
  by (simp add: fold_push_new_first)

lemma removeAll_map_inj:
  "inj_on g (insert x (set zs)) \<Longrightarrow> removeAll (g x) (map g zs) = map g (removeAll x zs)"
  by (induction zs) (auto simp: inj_on_def)

lemma first_occurrences_map:
  "inj_on g (set xs) \<Longrightarrow> first_occurrences (map g xs) = map g (first_occurrences xs)"
proof (induction xs)
  case Nil
  show ?case by simp
next
  case (Cons x xs)
  then have inj: "inj_on g (set xs)" and inj': "inj_on g (insert x (set (first_occurrences xs)))"
    by (simp_all add: set_first_occurrences)
  have "removeAll (g x) (map g (first_occurrences xs)) = map g (removeAll x (first_occurrences xs))"
    using inj' by (rule removeAll_map_inj)
  with Cons.IH [OF inj] show ?case by simp
qed

subsection \<open>The tally\<close>

lemma keys_update: "map fst (AList.update k v al) = push_new k (map fst al)"
  by (induction al) (auto simp: push_new_def)

lemma keys_tally: "map fst (tally us al) = fold push_new (map fst us) (map fst al)"
  unfolding tally_def by (induction us arbitrary: al) (simp_all add: keys_update)

lemma distinct_tally: "distinct (map fst al) \<Longrightarrow> distinct (map fst (tally us al))"
  unfolding tally_def by (induction us arbitrary: al) (simp_all add: distinct_update)

lemma pair_total_Nil: "pair_total [] k = 0"
  by (simp add: pair_total_def)

lemma pair_total_Cons: "pair_total (u # us) k = (if fst u = k then snd u else 0) + pair_total us k"
  by (simp add: pair_total_def)

lemma pair_total_absent: "k \<notin> fst ` set us \<Longrightarrow> pair_total us k = 0"
  by (induction us) (auto simp: pair_total_Nil pair_total_Cons)

lemma js_or_Some_0: "js_or (Some v) 0 = v"
  by (simp add: js_or_def)

lemma map_of_tally:
  "map_of (tally us al) k =
     (if k \<in> fst ` set us then Some (js_or (map_of al k) 0 + pair_total us k) else map_of al k)"
proof (induction us arbitrary: al)
  case Nil
  show ?case by (simp add: tally_def)
next
  case (Cons u us)
  let ?v = "js_or (map_of al (fst u)) 0 + snd u"
  let ?al = "AList.update (fst u) ?v al"
  have step: "tally (u # us) al = tally us ?al" by (simp add: tally_def)
  show ?case
  proof (cases "fst u = k")
    case True
    then have m: "map_of ?al k = Some ?v" by (simp add: update_conv')
    show ?thesis
    proof (cases "k \<in> fst ` set us")
      case True
      with \<open>fst u = k\<close> m show ?thesis
        unfolding step Cons.IH by (simp add: js_or_Some_0 pair_total_Cons)
    next
      case False
      with \<open>fst u = k\<close> m show ?thesis
        unfolding step Cons.IH by (simp add: pair_total_Cons pair_total_absent)
    qed
  next
    case False
    then have m: "map_of ?al k = map_of al k" by (simp add: update_conv')
    with False show ?thesis
      unfolding step Cons.IH by (simp add: pair_total_Cons)
  qed
qed

lemma alist_by_keys:
  assumes "distinct (map fst al)" and "\<And>k. k \<in> fst ` set al \<Longrightarrow> map_of al k = Some (f k)"
  shows "al = map (\<lambda>k. (k, f k)) (map fst al)"
proof -
  have "(k, v) \<in> set al \<Longrightarrow> v = f k" for k v
    using assms(1) assms(2) [of k] by (force simp: rev_image_eqI)
  then show ?thesis by (induction al) auto
qed

lemma tally_Nil:
  "tally us [] = map (\<lambda>k. (k, pair_total us k)) (first_occurrences (map fst us))"
proof -
  have d: "distinct (map fst (tally us []))" by (rule distinct_tally) simp
  have k: "map fst (tally us []) = first_occurrences (map fst us)"
    by (simp add: keys_tally fold_push_new_Nil)
  have "map_of (tally us []) k = Some (pair_total us k)" if "k \<in> fst ` set (tally us [])" for k
  proof -
    from that have "k \<in> set (map fst (tally us []))" by simp
    then have "k \<in> fst ` set us" unfolding k by (simp add: set_first_occurrences)
    then show ?thesis by (simp add: map_of_tally js_or_def)
  qed
  from alist_by_keys [OF d this] show ?thesis by (simp add: k)
qed

subsection \<open>Keys of names without a colon\<close>

lemma split_colon_free: "CHR '':'' \<notin> set s \<Longrightarrow> split_colon s = [s]"
  by (induction s) auto

lemma split_colon_key:
  "CHR '':'' \<notin> set f \<Longrightarrow> split_colon (usage_key f m) = f # split_colon m"
  by (induction f) (auto simp: usage_key_def)

lemma split_pair_key:
  "CHR '':'' \<notin> set (fst p) \<Longrightarrow> CHR '':'' \<notin> set (snd p) \<Longrightarrow> split_colon (pair_key p) = [fst p, snd p]"
  by (simp add: pair_key_def split_colon_key split_colon_free)

lemma pair_key_inj: "plain p \<Longrightarrow> plain q \<Longrightarrow> pair_key p = pair_key q \<Longrightarrow> p = q"
proof -
  assume "plain p" "plain q" "pair_key p = pair_key q"
  then have "[fst p, snd p] = [fst q, snd q]"
    by (metis plain_def split_pair_key)
  then show "p = q" by (simp add: prod_eq_iff)
qed

lemma pair_key_inj_on: "\<forall>p\<in>A. plain p \<Longrightarrow> inj_on pair_key A"
  by (auto simp: inj_on_def dest: pair_key_inj)

lemma select_key_pair: "plain p \<Longrightarrow> select_key (pair_key p) d = select_pair p d"
  by (simp add: select_key_def select_pair_def split_pair_key plain_def)

lemma fold_select_key:
  "\<forall>p\<in>set ps. plain p \<Longrightarrow> fold select_key (map pair_key ps) d = fold select_pair ps d"
  by (induction ps arbitrary: d) (simp_all add: select_key_pair)

lemma colon_free_plain: "colon_free start history \<Longrightarrow> p \<in> fst ` set (window_usage start history) \<Longrightarrow> plain p"
  by (force simp: colon_free_def list_all_iff)

subsection \<open>The usage object\<close>

lemma pair_total_keyed:
  assumes "\<forall>q\<in>fst ` set us. plain q" and "plain p"
  shows "pair_total (map (\<lambda>u. (pair_key (fst u), snd u)) us) (pair_key p) = pair_total us p"
  using assms(1)
proof (induction us)
  case Nil
  show ?case by (simp add: pair_total_Nil)
next
  case (Cons u us)
  then have "plain (fst u)" by simp
  then have "pair_key (fst u) = pair_key p \<longleftrightarrow> fst u = p"
    using assms(2) by (auto dest: pair_key_inj)
  with Cons show ?case by (simp add: pair_total_Cons)
qed

lemma usage_of_pairs:
  assumes "colon_free start history"
  shows "usage_of start history =
     map (\<lambda>p. (pair_key p, pair_total (window_usage start history) p))
       (first_occurrences (map fst (window_usage start history)))"
proof -
  let ?us = "window_usage start history"
  let ?ks = "map (\<lambda>u. (pair_key (fst u), snd u)) ?us"
  have pl: "\<forall>q\<in>fst ` set ?us. plain q" using assms colon_free_plain by blast
  then have inj: "inj_on pair_key (set (map fst ?us))" by (auto intro: pair_key_inj_on)
  have keys: "first_occurrences (map fst ?ks) = map pair_key (first_occurrences (map fst ?us))"
    using first_occurrences_map [OF inj] by (simp add: comp_def)
  have "usage_of start history = tally ?ks []"
    by (simp add: usage_of_window fold_add_usage_tally)
  also have "\<dots> = map (\<lambda>k. (k, pair_total ?ks k)) (first_occurrences (map fst ?ks))"
    by (rule tally_Nil)
  also have "\<dots> = map (\<lambda>p. (pair_key p, pair_total ?ks (pair_key p))) (first_occurrences (map fst ?us))"
    unfolding keys by (simp add: comp_def)
  also have "\<dots> = map (\<lambda>p. (pair_key p, pair_total ?us p)) (first_occurrences (map fst ?us))"
  proof (rule map_cong [OF refl])
    fix p assume "p \<in> set (first_occurrences (map fst ?us))"
    then have "p \<in> fst ` set ?us" by (simp add: set_first_occurrences)
    with pl have "plain p" by blast
    then show "(pair_key p, pair_total ?ks (pair_key p)) = (pair_key p, pair_total ?us p)"
      using pair_total_keyed [OF pl] by simp
  qed
  finally show ?thesis .
qed

subsection \<open>The ranking\<close>

lemma insert_by_map:
  "insert_by cmp (g x) (map g ys) = map g (insert_by (\<lambda>a b. cmp (g a) (g b)) x ys)"
  by (induction ys) simp_all

lemma js_sort_map: "js_sort cmp (map g xs) = map g (js_sort (\<lambda>a b. cmp (g a) (g b)) xs)"
  unfolding js_sort_def by (induction xs) (simp_all add: insert_by_map)

lemma insert_by_insort_key:
  "insert_by (\<lambda>a b. f b - f a) x ys = insort_key (\<lambda>a. - f a) x ys" for f :: "'a \<Rightarrow> int"
  by (induction ys) simp_all

lemma js_sort_sort_key: "js_sort (\<lambda>a b. f b - f a) xs = sort_key (\<lambda>a. - f a) xs" for f :: "'a \<Rightarrow> int"
  unfolding js_sort_def sort_key_def by (induction xs) (simp_all add: insert_by_insort_key)

lemma ranked_usage:
  assumes "colon_free start history"
  shows "map fst (take n (js_sort usage_cmp (usage_of start history))) =
         map pair_key (top_pairs n start history)"
proof -
  let ?us = "window_usage start history"
  let ?g = "\<lambda>p. (pair_key p, pair_total ?us p)"
  have "js_sort usage_cmp (map ?g (first_occurrences (map fst ?us))) =
        map ?g (sort_key (\<lambda>p. - pair_total ?us p) (first_occurrences (map fst ?us)))"
    by (simp add: js_sort_map usage_cmp_def js_sort_sort_key)
  then show ?thesis
    by (simp add: usage_of_pairs [OF assms] top_pairs_def take_map comp_def)
qed

lemma top_keys_pairs:
  "colon_free (now - 24 * 60 * 60 * 1000) history \<Longrightarrow>
   top_keys n now history = map pair_key (top_pairs n (now - 24 * 60 * 60 * 1000) history)"
  unfolding top_keys_def by (rule ranked_usage)

lemma top_pairs_subset: "set (top_pairs n start history) \<subseteq> fst ` set (window_usage start history)"
proof -
  have "set (top_pairs n start history) \<subseteq>
        set (sort_key (\<lambda>p. - pair_total (window_usage start history) p)
               (first_occurrences (map fst (window_usage start history))))"
    unfolding top_pairs_def by (rule set_take_subset)
  then show ?thesis by (simp add: set_first_occurrences)
qed

subsection \<open>The selection\<close>

lemma select_pair_families:
  "selectedFamilies (fold select_pair ps d) = fold push_new (map fst ps) (selectedFamilies d)"
  by (induction ps arbitrary: d) (simp_all add: select_pair_def)

lemma select_pair_keys:
  "map fst (selectedModels (fold select_pair ps d)) = fold push_new (map fst ps) (map fst (selectedModels d))"
  by (induction ps arbitrary: d) (simp_all add: select_pair_def keys_update)

lemma select_pair_models:
  "array_at (selectedModels (fold select_pair ps d)) fam =
     array_at (selectedModels d) fam @ map snd (filter (\<lambda>p. fst p = fam) ps)"
  by (induction ps arbitrary: d) (simp_all add: select_pair_def array_at_update)

lemma select_pair_displayMode: "displayMode (fold select_pair ps d) = displayMode d"
  by (induction ps arbitrary: d) (simp_all add: select_pair_def)

text \<open>
  When no family or model name of the window holds a colon, the selection after
  \<open>autoSelectTopN\<close> is the one of the top pairs, whatever was selected before:
  their families in order of first occurrence, under each family its models in
  rank order, and the same is stored.
\<close>

lemma autoSelectTopN_plain_names:
  assumes "colon_free (now - 24 * 60 * 60 * 1000) (historyData d)"
  shows "selectedFamilies (autoSelectTopN n now d) =
           first_occurrences (map fst (top_pairs n (now - 24 * 60 * 60 * 1000) (historyData d)))"
    and "map fst (selectedModels (autoSelectTopN n now d)) =
           first_occurrences (map fst (top_pairs n (now - 24 * 60 * 60 * 1000) (historyData d)))"
    and "array_at (selectedModels (autoSelectTopN n now d)) fam =
           map snd (filter (\<lambda>p. fst p = fam) (top_pairs n (now - 24 * 60 * 60 * 1000) (historyData d)))"
    and "storage (autoSelectTopN n now d) =
           Some \<lparr>p_displayMode = displayMode d,
                 p_selectedFamilies = selectedFamilies (autoSelectTopN n now d),
                 p_selectedModels = selectedModels (autoSelectTopN n now d)\<rparr>"
proof -
  define start where "start = now - 24 * 60 * 60 * 1000"
  define tp where "tp = top_pairs n start (historyData d)"
  define d0 where "d0 = d\<lparr>selectedFamilies := [], selectedModels := []\<rparr>"
  have cf: "colon_free start (historyData d)" using assms by (simp add: start_def)
  have "\<forall>p\<in>set tp. plain p"
    using top_pairs_subset [of n start "historyData d"] colon_free_plain [OF cf]
    unfolding tp_def by blast
  then have sel: "fold select_key (map pair_key tp) d0 = fold select_pair tp d0"
    by (rule fold_select_key)
  have keys: "top_keys n now (historyData d) = map pair_key tp"
    unfolding tp_def start_def using assms by (rule top_keys_pairs)
  have e: "array_at (selectedModels d0) fam = []" by (simp add: d0_def array_at_def)
  have res: "autoSelectTopN n now d = savePreferences (fold select_pair tp d0)"
    unfolding autoSelectTopN_def keys d0_def [symmetric] sel ..
  show "selectedFamilies (autoSelectTopN n now d) =
           first_occurrences (map fst (top_pairs n (now - 24 * 60 * 60 * 1000) (historyData d)))"
    unfolding res tp_def [symmetric] start_def [symmetric]
    by (simp add: savePreferences_def select_pair_families d0_def fold_push_new_Nil)
  show "map fst (selectedModels (autoSelectTopN n now d)) =
           first_occurrences (map fst (top_pairs n (now - 24 * 60 * 60 * 1000) (historyData d)))"
    unfolding res tp_def [symmetric] start_def [symmetric]
    by (simp add: savePreferences_def select_pair_keys d0_def fold_push_new_Nil)
  show "array_at (selectedModels (autoSelectTopN n now d)) fam =
           map snd (filter (\<lambda>p. fst p = fam) (top_pairs n (now - 24 * 60 * 60 * 1000) (historyData d)))"
    unfolding res tp_def [symmetric] start_def [symmetric]
    by (simp add: savePreferences_def select_pair_models e)
  show "storage (autoSelectTopN n now d) =
           Some \<lparr>p_displayMode = displayMode d,
                 p_selectedFamilies = selectedFamilies (autoSelectTopN n now d),
                 p_selectedModels = selectedModels (autoSelectTopN n now d)\<rparr>"
    unfolding res by (simp add: savePreferences_def select_pair_displayMode d0_def)
qed

text \<open>
  Claim C8.  The selection after \<open>autoSelectTopN\<close> holds exactly the top pairs.  For
  the one pair \<open>(claude, opus:beta)\<close> of the history the code selects the model
  \<open>opus\<close>, which the history does not hold: the key \<open>claude:opus:beta\<close> is split at
  every colon.
\<close>

theorem autoSelectTopN_colon:
  "selectedFamilies (autoSelectTopN 5 2000 colon_dashboard) = [''claude''] \<and>
   selectedModels (autoSelectTopN 5 2000 colon_dashboard) = [(''claude'', [''opus''])]"
  by code_simp

section \<open>The scenarios of the specification\<close>

text \<open>
  Top-N with \<open>n = 2\<close> on the usage \<open>claude:sonnet = 10\<close>, \<open>claude:opus = 30\<close>,
  \<open>gemini:flash = 5\<close> selects \<open>claude:opus\<close> and \<open>claude:sonnet\<close>, whatever was
  selected before.
\<close>

lemma scenario_top_two:
  "selectedFamilies (autoSelectTopN 2 2000 (first_refresh\<lparr>historyData := scenario_history\<rparr>)) = [''claude''] \<and>
   selectedModels (autoSelectTopN 2 2000 (first_refresh\<lparr>historyData := scenario_history\<rparr>)) =
     [(''claude'', [''opus'', ''sonnet''])]"
  by code_simp

text \<open>
  One account with \<open>opus\<close> at 0.5 is active, one with \<open>opus\<close> at 0.01 is limited, and
  a disabled third is not counted.
\<close>

lemma scenario_stats:
  "stat_total (stats (updateStats scenario_accounts initial_dashboard)) = 2 \<and>
   active (stats (updateStats scenario_accounts initial_dashboard)) = 1 \<and>
   limited (stats (updateStats scenario_accounts initial_dashboard)) = 1"
  by code_simp

text \<open>
  With \<open>claude\<close> and its model \<open>opus\<close> selected, the discovery of the family
  \<open>gemini\<close> with the model \<open>flash\<close> extends the selection by both.
\<close>

lemma scenario_extension:
  "selectedFamilies (autoSelectNew scenario_selection) = [''claude'', ''gemini''] \<and>
   selectedModels (autoSelectNew scenario_selection) = [(''claude'', [''opus'']), (''gemini'', [''flash''])]"
  by code_simp

end
